(* ===== verification/Prelude.thy ===== *)
theory Prelude
  imports Main "HOL-Library.Word" "HOL-Library.Sublist" "HOL-Library.Finite_Map"
begin

text \<open>
  Shared vocabulary of the development: the machine integers and byte strings the Rust code
  uses, its \<open>Result\<close> type, and the generic facts on lists, words and finite maps that the
  component theories rely on.

  A Rust \<open>String\<close>, \<open>&str\<close>, \<open>OsStr\<close>, \<open>Vec<u8>\<close> or \<open>Bytes\<close> is a HOL \<open>string\<close>: a list of
  bytes, one \<open>char\<close> per byte (the UTF-8 encoding for the text types).  A Rust \<open>Result<T, E>\<close>
  is the sum \<open>E + T\<close>, with \<open>Inl\<close> for \<open>Err\<close> and \<open>Inr\<close> for \<open>Ok\<close>.  A hash map is a finite map.
\<close>

named_theorems wf_intros \<open>an operation keeps the invariant of its component\<close>
named_theorems step_simps \<open>evaluation of an operation in a known situation\<close>

type_synonym u16 = "16 word"
type_synonym u32 = "32 word"
type_synonym u64 = "64 word"
type_synonym i32 = "32 word"
type_synonym i64 = "64 word"
type_synonym bytes = string

abbreviation Err :: "'e \<Rightarrow> 'e + 'a" where "Err \<equiv> Inl"
abbreviation Ok :: "'a \<Rightarrow> 'e + 'a" where "Ok \<equiv> Inr"

text \<open>\<open>u64::MAX\<close>, \<open>saturating_add\<close>, \<open>saturating_sub\<close>, and the cast \<open>n as u64\<close> of a length.\<close>

definition u64_max :: u64 where "u64_max = 18446744073709551615"

definition sat_add :: "u64 \<Rightarrow> u64 \<Rightarrow> u64" where
  "sat_add a b = (if unat a + unat b < 2 ^ 64 then a + b else u64_max)"

definition sat_sub :: "u64 \<Rightarrow> u64 \<Rightarrow> u64" where
  "sat_sub a b = (if b \<le> a then a - b else 0)"

definition len_u64 :: "'a list \<Rightarrow> u64" where
  "len_u64 xs = word_of_nat (length xs)"

text \<open>\<open>offset.max(0)\<close> on an \<open>i64\<close>, followed by an unsigned cast.\<close>

definition i64_max0 :: "i64 \<Rightarrow> u64" where
  "i64_max0 x = (if sint x < 0 then 0 else x)"

lemma unat_less_64 [simp]: "unat (x :: u64) < 18446744073709551616"
  using unsigned_less [of x] by simp

lemma unat_u64_max: "unat u64_max = 2 ^ 64 - 1"
  by (simp add: u64_max_def)

lemma unat_sat_add: "unat (sat_add a b) = min (unat a + unat b) (2 ^ 64 - 1)"
  by (auto simp: sat_add_def unat_u64_max unat_word_ariths)

lemma unat_sat_sub: "unat (sat_sub a b) = unat a - unat b"
  by (auto simp: sat_sub_def unat_sub word_le_nat_alt)

lemma unat_len_u64: "length xs < 2 ^ 64 \<Longrightarrow> unat (len_u64 xs) = length xs"
  by (simp add: len_u64_def unat_of_nat take_bit_nat_eq_self)

lemma u64_add_no_wrap:
  "unat (a :: u64) + unat b < 2 ^ 64 \<Longrightarrow> unat (a + b) = unat a + unat b"
  by (simp add: unat_word_ariths)

lemma u64_eq_iff: "(a :: u64) = b \<longleftrightarrow> unat a = unat b"
  by (simp add: word_unat_eq_iff)

text \<open>Generic facts on lists.\<close>

lemma takeWhile_append_stop:
  "list_all P xs \<Longrightarrow> (ys = [] \<or> \<not> P (hd ys)) \<Longrightarrow> takeWhile P (xs @ ys) = xs"
  by (induction xs) (auto simp: takeWhile_eq_Nil_iff)

lemma filter_snoc_cases:
  "filter P (xs @ [x]) = filter P xs @ (if P x then [x] else [])"
  by simp

lemma take_drop_split:
  "take (m + n) xs = take m xs @ take n (drop m xs)"
  by (simp add: take_add)

lemma distinct_map_inj:
  "distinct xs \<Longrightarrow> (\<And>x y. f x = f y \<Longrightarrow> x = y) \<Longrightarrow> distinct (map f xs)"
  by (simp add: distinct_map inj_on_def)

lemma apfst_eqD: "apfst f p = (a, b) \<Longrightarrow> \<exists>c. p = (c, b) \<and> a = f c"
  by (cases p) auto

end
