(* ===== verification/Cache.thy ===== *)
theory Cache
  imports Prelude
begin

text \<open>
  \<open>TtlCache\<close> of \<open>src/cache.rs\<close>: a concurrent map whose entries expire.  An \<open>Instant\<close> is a \<open>nat\<close>
  (nanoseconds on the monotonic clock); \<open>now\<close> is the clock reading that the call made.

  The contract that the file system relies on is the locale \<open>ttl_store\<close>; the last section models
  the two separate lock acquisitions of \<open>get\<close> (read the entry, then remove it when it has expired)
  as steps that interleave with other threads.
\<close>

section \<open>The cache\<close>

record ('k, 'v) ttl_cache =
  cmap :: "('k, 'v \<times> nat) fmap"
  cttl :: nat

definition cache_new :: "nat \<Rightarrow> ('k, 'v) ttl_cache" where
  "cache_new t = \<lparr>cmap = fmempty, cttl = t\<rparr>"

text \<open>\<open>inserted_at.elapsed()\<close> saturates at zero.\<close>

definition elapsed :: "nat \<Rightarrow> nat \<Rightarrow> nat" where
  "elapsed now inserted_at = now - inserted_at"

definition cache_get :: "('k, 'v) ttl_cache \<Rightarrow> 'k \<Rightarrow> nat \<Rightarrow> 'v option \<times> ('k, 'v) ttl_cache" where
  "cache_get c key now =
     (case fmlookup (cmap c) key of
        None \<Rightarrow> (None, c)
      | Some (val, inserted_at) \<Rightarrow>
          if elapsed now inserted_at \<le> cttl c then (Some val, c)
          else (None, c\<lparr>cmap := fmdrop key (cmap c)\<rparr>))"

definition cache_insert :: "('k, 'v) ttl_cache \<Rightarrow> 'k \<Rightarrow> 'v \<Rightarrow> nat \<Rightarrow> ('k, 'v) ttl_cache" where
  "cache_insert c key val now = c\<lparr>cmap := fmupd key (val, now) (cmap c)\<rparr>"

definition cache_len :: "('k, 'v) ttl_cache \<Rightarrow> nat" where
  "cache_len c = fcard (fmdom (cmap c))"

section \<open>The contract of a store with expiry\<close>

text \<open>
  \<open>fresh c k t = Some (v, t0)\<close> says that a lookup of \<open>k\<close> at time \<open>t\<close> finds \<open>v\<close>, inserted at \<open>t0\<close>.
\<close>

locale ttl_store =
  fixes get :: "'c \<Rightarrow> 'k \<Rightarrow> nat \<Rightarrow> 'v option \<times> 'c"
    and insert :: "'c \<Rightarrow> 'k \<Rightarrow> 'v \<Rightarrow> nat \<Rightarrow> 'c"
    and ttl :: "'c \<Rightarrow> nat"
    and fresh :: "'c \<Rightarrow> 'k \<Rightarrow> nat \<Rightarrow> ('v \<times> nat) option"
  assumes get_fresh: "fst (get c k t) = map_option fst (fresh c k t)"
    and get_keeps: "t \<le> t' \<Longrightarrow> fresh (snd (get c k t)) k' t' = fresh c k' t'"
    and get_ttl: "ttl (snd (get c k t)) = ttl c"
    and insert_fresh: "t0 \<le> t \<Longrightarrow> fresh (insert c k v t0) k' t =
          (if k' = k then (if t - t0 \<le> ttl c then Some (v, t0) else None) else fresh c k' t)"
    and insert_ttl: "ttl (insert c k v t0) = ttl c"
    and fresh_age: "fresh c k t = Some (v, t0) \<Longrightarrow> t - t0 \<le> ttl c"
begin

lemma hit_after_insert:
  assumes "t0 \<le> t" and "t - t0 \<le> ttl c"
  shows "fst (get (insert c k v t0) k t) = Some v"
  using assms by (simp add: get_fresh insert_fresh)

lemma miss_when_expired:
  assumes "t0 \<le> t" and "ttl c < t - t0"
  shows "fst (get (insert c k v t0) k t) = None"
  using assms by (simp add: get_fresh insert_fresh)

lemma get_insert_other:
  assumes "t0 \<le> t" and "k' \<noteq> k"
  shows "fst (get (insert c k v t0) k' t) = fst (get c k' t)"
  using assms by (simp add: get_fresh insert_fresh)

lemma get_after_get:
  assumes "t \<le> t'"
  shows "fst (get (snd (get c k t)) k' t') = fst (get c k' t')"
  using assms by (simp add: get_fresh get_keeps)

end

definition cache_fresh :: "('k, 'v) ttl_cache \<Rightarrow> 'k \<Rightarrow> nat \<Rightarrow> ('v \<times> nat) option" where
  "cache_fresh c k t =
     (case fmlookup (cmap c) k of
        Some (v, t0) \<Rightarrow> if elapsed t t0 \<le> cttl c then Some (v, t0) else None
      | None \<Rightarrow> None)"

lemmas cache_defs = cache_get_def cache_insert_def cache_fresh_def elapsed_def

lemma cache_get_keeps:
  assumes "t \<le> t'"
  shows "cache_fresh (snd (cache_get c k t)) k' t' = cache_fresh c k' t'"
proof (cases "k' = k")
  case True
  with assms show ?thesis
    by (auto simp: cache_defs split: option.splits)
next
  case False
  then show ?thesis
    by (auto simp: cache_defs split: option.splits)
qed

interpretation tc: ttl_store cache_get cache_insert cttl cache_fresh
proof
  fix c :: "('k, 'v) ttl_cache" and k k' t t' v t0
  show "fst (cache_get c k t) = map_option fst (cache_fresh c k t)"
    by (auto simp: cache_defs split: option.splits)
  show "t \<le> t' \<Longrightarrow> cache_fresh (snd (cache_get c k t)) k' t' = cache_fresh c k' t'"
    by (rule cache_get_keeps)
  show "cttl (snd (cache_get c k t)) = cttl c"
    by (auto simp: cache_defs split: option.splits)
  show "t0 \<le> t \<Longrightarrow> cache_fresh (cache_insert c k v t0) k' t =
      (if k' = k then (if t - t0 \<le> cttl c then Some (v, t0) else None) else cache_fresh c k' t)"
    by (auto simp: cache_defs split: option.splits)
  show "cttl (cache_insert c k v t0) = cttl c"
    by (simp add: cache_defs)
  show "cache_fresh c k t = Some (v, t0) \<Longrightarrow> t - t0 \<le> cttl c"
    by (auto simp: cache_defs split: option.splits if_splits)
qed

section \<open>Histories\<close>

text \<open>
  A sequential history of calls with their clock readings, and the abstract specification: a
  lookup finds the value of the latest insert for its key when that insert is no older than the
  time to live.
\<close>

datatype ('k, 'v) cache_op = OpGet 'k nat | OpInsert 'k 'v nat

fun op_time :: "('k, 'v) cache_op \<Rightarrow> nat" where
  "op_time (OpGet _ t) = t"
| "op_time (OpInsert _ _ t) = t"

fun cache_step :: "('k, 'v) ttl_cache \<Rightarrow> ('k, 'v) cache_op \<Rightarrow> ('k, 'v) ttl_cache" where
  "cache_step c (OpGet k t) = snd (cache_get c k t)"
| "cache_step c (OpInsert k v t) = cache_insert c k v t"

fun cache_run :: "('k, 'v) ttl_cache \<Rightarrow> ('k, 'v) cache_op list \<Rightarrow> ('k, 'v) ttl_cache" where
  "cache_run c [] = c"
| "cache_run c (x # xs) = cache_run (cache_step c x) xs"

fun last_insert :: "'k \<Rightarrow> ('k, 'v) cache_op list \<Rightarrow> ('v \<times> nat) option" where
  "last_insert k [] = None"
| "last_insert k (x # xs) =
     (case last_insert k xs of
        Some r \<Rightarrow> Some r
      | None \<Rightarrow> (case x of OpInsert k' v t \<Rightarrow> if k' = k then Some (v, t) else None | _ \<Rightarrow> None))"

definition spec_get :: "nat \<Rightarrow> ('k, 'v) cache_op list \<Rightarrow> 'k \<Rightarrow> nat \<Rightarrow> 'v option" where
  "spec_get t_l xs k now =
     (case last_insert k xs of
        Some (v, t) \<Rightarrow> if now - t \<le> t_l then Some v else None | None \<Rightarrow> None)"

lemma cache_run_ttl [simp]: "cttl (cache_run c xs) = cttl c"
proof (induction xs arbitrary: c)
  case (Cons x xs)
  then show ?case by (cases x) (simp_all add: tc.get_ttl tc.insert_ttl)
qed simp

lemma cache_run_fresh:
  assumes "\<forall>x \<in> set xs. op_time x \<le> now"
  shows "cache_fresh (cache_run c xs) k now =
     (case last_insert k xs of
        Some (v, t) \<Rightarrow> if now - t \<le> cttl c then Some (v, t) else None
      | None \<Rightarrow> cache_fresh c k now)"
  using assms
proof (induction xs arbitrary: c)
  case (Cons x xs)
  then show ?case
    by (cases x) (auto simp: tc.get_keeps tc.insert_fresh tc.get_ttl tc.insert_ttl
        split: option.splits)
qed simp

lemma cache_fresh_new [simp]: "cache_fresh (cache_new t_l) k now = None"
  by (simp add: cache_fresh_def cache_new_def)

lemma cttl_new [simp]: "cttl (cache_new t_l) = t_l"
  by (simp add: cache_new_def)

lemma cache_run_spec:
  assumes "\<forall>x \<in> set xs. op_time x \<le> now"
  shows "fst (cache_get (cache_run (cache_new t_l) xs) k now) = spec_get t_l xs k now"
  using assms
  by (auto simp: tc.get_fresh cache_run_fresh spec_get_def split: option.splits)

section \<open>Interleaved lookups\<close>

text \<open>
  \<open>get\<close> drops the read guard of an expired entry before it removes the key, so another thread may
  run between the two.  A thread is idle or about to remove a key that it saw expired.  \<open>served\<close>
  records every hit with its key, value, insertion time and lookup time, and \<open>written\<close> every
  insertion.
\<close>

datatype 'k cache_pc = Idle | Removing 'k

record ('k, 'v) cache_sys =
  sc :: "('k, 'v) ttl_cache"
  pcs :: "nat \<Rightarrow> 'k cache_pc"
  clock :: nat
  served :: "('k \<times> 'v \<times> nat \<times> nat) list"
  written :: "('k \<times> 'v \<times> nat) list"

inductive cache_sys_step :: "('k, 'v) cache_sys \<Rightarrow> ('k, 'v) cache_sys \<Rightarrow> bool" where
  tick: "cache_sys_step s (s\<lparr>clock := clock s + d\<rparr>)"
| ins: "pcs s i = Idle \<Longrightarrow>
    cache_sys_step s (s\<lparr>sc := cache_insert (sc s) k v (clock s), written := (k, v, clock s) # written s\<rparr>)"
| miss: "pcs s i = Idle \<Longrightarrow> fmlookup (cmap (sc s)) k = None \<Longrightarrow> cache_sys_step s s"
| hit: "pcs s i = Idle \<Longrightarrow> fmlookup (cmap (sc s)) k = Some (v, t0) \<Longrightarrow>
    elapsed (clock s) t0 \<le> cttl (sc s) \<Longrightarrow>
    cache_sys_step s (s\<lparr>served := (k, v, t0, clock s) # served s\<rparr>)"
| expired: "pcs s i = Idle \<Longrightarrow> fmlookup (cmap (sc s)) k = Some (v, t0) \<Longrightarrow>
    \<not> elapsed (clock s) t0 \<le> cttl (sc s) \<Longrightarrow>
    cache_sys_step s (s\<lparr>pcs := (pcs s)(i := Removing k)\<rparr>)"
| remove: "pcs s i = Removing k \<Longrightarrow>
    cache_sys_step s (s\<lparr>sc := (sc s)\<lparr>cmap := fmdrop k (cmap (sc s))\<rparr>, pcs := (pcs s)(i := Idle)\<rparr>)"

definition cache_sys_init :: "nat \<Rightarrow> ('k, 'v) cache_sys" where
  "cache_sys_init t_l =
     \<lparr>sc = cache_new t_l, pcs = (\<lambda>_. Idle), clock = 0, served = [], written = []\<rparr>"

inductive cache_reach :: "nat \<Rightarrow> ('k, 'v) cache_sys \<Rightarrow> bool" for t_l where
  start: "cache_reach t_l (cache_sys_init t_l)"
| step: "cache_reach t_l s \<Longrightarrow> cache_sys_step s s' \<Longrightarrow> cache_reach t_l s'"

text \<open>Everything stored was written, and everything served was written and young enough.\<close>

definition cache_sys_inv :: "nat \<Rightarrow> ('k, 'v) cache_sys \<Rightarrow> bool" where
  "cache_sys_inv t_l s \<longleftrightarrow>
     cttl (sc s) = t_l
   \<and> (\<forall>k v t0. fmlookup (cmap (sc s)) k = Some (v, t0) \<longrightarrow> (k, v, t0) \<in> set (written s) \<and> t0 \<le> clock s)
   \<and> (\<forall>(k, v, t0, t) \<in> set (served s). (k, v, t0) \<in> set (written s) \<and> t0 \<le> t \<and> t \<le> clock s \<and> t - t0 \<le> t_l)"

lemma cache_sys_step_inv:
  "cache_sys_step s s' \<Longrightarrow> cache_sys_inv t_l s \<Longrightarrow> cache_sys_inv t_l s'"
proof (induction rule: cache_sys_step.induct)
  case (tick s d)
  then show ?case by (fastforce simp: cache_sys_inv_def)
next
  case (ins s i k v)
  then show ?case by (fastforce simp: cache_sys_inv_def cache_insert_def)
next
  case (hit s i k v t0)
  then show ?case by (fastforce simp: cache_sys_inv_def elapsed_def)
next
  case (remove s i k)
  then show ?case by (fastforce simp: cache_sys_inv_def)
qed (auto simp: cache_sys_inv_def)

lemma cache_reach_inv: "cache_reach t_l s \<Longrightarrow> cache_sys_inv t_l s"
proof (induction rule: cache_reach.induct)
  case start
  then show ?case by (simp add: cache_sys_inv_def cache_sys_init_def cache_new_def)
next
  case (step s s')
  then show ?case by (blast intro: cache_sys_step_inv)
qed

end
