(* ===== verification/RustStr.thy ===== *)
theory RustStr
  imports Prelude
begin

text \<open>
  The operations of Rust's \<open>str\<close> and \<open>char\<close> that the program uses, on UTF-8 byte strings:
  character classes, \<open>find\<close>, \<open>rfind\<close>, \<open>replace\<close>, \<open>split\<close>, \<open>lines\<close>, \<open>trim\<close>, \<open>parse\<close>, decimal
  \<open>Display\<close>, and UTF-8 validity (\<open>OsStr::to_str\<close>).  The lemmas are the algebra the component
  proofs need: splitting and joining are inverse, printing and parsing numbers are inverse,
  and trimming leaves no white space.
\<close>

section \<open>Bytes and characters\<close>

definition byte_of :: "char \<Rightarrow> nat" where
  "byte_of c = of_char c"

definition is_ascii_digit :: "char \<Rightarrow> bool" where
  "is_ascii_digit c \<longleftrightarrow> 48 \<le> byte_of c \<and> byte_of c \<le> 57"

definition is_ascii_alphanumeric :: "char \<Rightarrow> bool" where
  "is_ascii_alphanumeric c \<longleftrightarrow>
     is_ascii_digit c \<or> (65 \<le> byte_of c \<and> byte_of c \<le> 90) \<or> (97 \<le> byte_of c \<and> byte_of c \<le> 122)"

abbreviation NL :: char where "NL \<equiv> CHR 0x0A"
abbreviation CR :: char where "CR \<equiv> CHR 0x0D"

lemma byte_of_inj: "byte_of c = byte_of d \<longleftrightarrow> c = d"
  by (simp add: byte_of_def)

text \<open>A UTF-8 continuation byte, and validity of a byte string (\<open>core::str::from_utf8\<close>).\<close>

definition cont_byte :: "char \<Rightarrow> bool" where
  "cont_byte c \<longleftrightarrow> 0x80 \<le> byte_of c \<and> byte_of c \<le> 0xBF"

fun utf8_valid :: "string \<Rightarrow> bool" where
  "utf8_valid [] = True"
| "utf8_valid (a # s) =
    (let n = byte_of a in
     if n < 0x80 then utf8_valid s
     else if 0xC2 \<le> n \<and> n \<le> 0xDF then
       (case s of b # s1 \<Rightarrow> cont_byte b \<and> utf8_valid s1 | _ \<Rightarrow> False)
     else if 0xE0 \<le> n \<and> n \<le> 0xEF then
       (case s of b # c # s2 \<Rightarrow>
          (if n = 0xE0 then 0xA0 \<le> byte_of b \<and> byte_of b \<le> 0xBF
           else if n = 0xED then 0x80 \<le> byte_of b \<and> byte_of b \<le> 0x9F
           else cont_byte b) \<and> cont_byte c \<and> utf8_valid s2
        | _ \<Rightarrow> False)
     else if 0xF0 \<le> n \<and> n \<le> 0xF4 then
       (case s of b # c # d # s3 \<Rightarrow>
          (if n = 0xF0 then 0x90 \<le> byte_of b \<and> byte_of b \<le> 0xBF
           else if n = 0xF4 then 0x80 \<le> byte_of b \<and> byte_of b \<le> 0x8F
           else cont_byte b) \<and> cont_byte c \<and> cont_byte d \<and> utf8_valid s3
        | _ \<Rightarrow> False)
     else False)"

definition to_str :: "string \<Rightarrow> string option" where
  "to_str s = (if utf8_valid s then Some s else None)"

text \<open>\<open>str::is_char_boundary\<close>: slicing at any other index panics.\<close>

definition is_char_boundary :: "string \<Rightarrow> nat \<Rightarrow> bool" where
  "is_char_boundary s i \<longleftrightarrow> i = 0 \<or> i = length s \<or> (i < length s \<and> \<not> cont_byte (s ! i))"

lemma ascii_utf8_valid: "list_all (\<lambda>c. byte_of c < 0x80) s \<Longrightarrow> utf8_valid s"
  by (induction s) (auto simp: Let_def)

lemma alnum_ascii: "is_ascii_alphanumeric c \<Longrightarrow> byte_of c < 0x80"
  by (auto simp: is_ascii_alphanumeric_def is_ascii_digit_def)

lemma to_str_ascii: "list_all (\<lambda>c. byte_of c < 0x80) s \<Longrightarrow> to_str s = Some s"
  by (simp add: to_str_def ascii_utf8_valid)

section \<open>Searching and replacing\<close>

fun str_find :: "string \<Rightarrow> string \<Rightarrow> nat option" where
  "str_find pat [] = (if pat = [] then Some 0 else None)"
| "str_find pat (c # s) =
     (if prefix pat (c # s) then Some 0 else map_option Suc (str_find pat s))"

fun str_rfind :: "string \<Rightarrow> string \<Rightarrow> nat option" where
  "str_rfind pat [] = (if pat = [] then Some 0 else None)"
| "str_rfind pat (c # s) =
     (case str_rfind pat s of
        Some i \<Rightarrow> Some (Suc i)
      | None \<Rightarrow> if prefix pat (c # s) then Some 0 else None)"

definition str_replace_char :: "char \<Rightarrow> string \<Rightarrow> string \<Rightarrow> string" where
  "str_replace_char c r s = concat (map (\<lambda>x. if x = c then r else [x]) s)"

lemma str_find_prefix: "prefix pat s \<Longrightarrow> str_find pat s = Some 0"
  by (cases s) auto

lemma str_find_Some:
  "str_find pat s = Some i \<Longrightarrow> i \<le> length s \<and> prefix pat (drop i s)"
  by (induction s arbitrary: i) (auto split: if_splits)

lemma str_find_None: "str_find pat s = None \<Longrightarrow> \<not> sublist pat s"
  by (induction s) (auto split: if_splits simp: sublist_Cons_right)

lemma str_rfind_Some:
  "str_rfind pat s = Some i \<Longrightarrow> i \<le> length s \<and> prefix pat (drop i s)"
  by (induction s arbitrary: i) (auto split: if_splits option.splits)

lemma str_rfind_None: "str_rfind pat s = None \<longleftrightarrow> \<not> sublist pat s"
  by (induction s) (auto split: option.splits simp: sublist_Cons_right)

lemma str_replace_char_Nil [simp]: "str_replace_char c r [] = []"
  by (simp add: str_replace_char_def)

lemma str_replace_char_Cons [simp]:
  "str_replace_char c r (x # s) = (if x = c then r else [x]) @ str_replace_char c r s"
  by (simp add: str_replace_char_def)

lemma str_replace_char_append [simp]:
  "str_replace_char c r (s @ t) = str_replace_char c r s @ str_replace_char c r t"
  by (simp add: str_replace_char_def)

lemma str_replace_char_absent: "c \<notin> set s \<Longrightarrow> str_replace_char c r s = s"
  by (induction s) auto

section \<open>Splitting and joining\<close>

text \<open>\<open>s.split(c)\<close>: always at least one piece.\<close>

fun str_split :: "char \<Rightarrow> string \<Rightarrow> string list" where
  "str_split c [] = [[]]"
| "str_split c (x # s) =
     (if x = c then [] # str_split c s
      else (case str_split c s of [] \<Rightarrow> [[x]] | p # ps \<Rightarrow> (x # p) # ps))"

fun str_join :: "string \<Rightarrow> string list \<Rightarrow> string" where
  "str_join sep [] = []"
| "str_join sep [p] = p"
| "str_join sep (p # q # ps) = p @ sep @ str_join sep (q # ps)"

text \<open>
  \<open>s.lines()\<close>: the pieces that \<open>'\n'\<close> ends, each without a carriage return before it, and the
  last piece when it is not empty (there a final carriage return stays).
\<close>

definition strip_cr :: "string \<Rightarrow> string" where
  "strip_cr p = (if p \<noteq> [] \<and> last p = CR then butlast p else p)"

definition str_lines :: "string \<Rightarrow> string list" where
  "str_lines s =
     (let ps = str_split NL s
      in map strip_cr (butlast ps) @ (if last ps = [] then [] else [last ps]))"

lemma str_split_ne [simp]: "str_split c s \<noteq> []"
  by (induction s) (auto split: list.splits)

lemma str_split_absent: "c \<notin> set s \<Longrightarrow> str_split c s = [s]"
  by (induction s) auto

lemma str_split_append:
  "c \<notin> set p \<Longrightarrow> str_split c (p @ c # s) = p # str_split c s"
  by (induction p) auto

lemma str_join_Cons: "ps \<noteq> [] \<Longrightarrow> str_join sep (p # ps) = p @ sep @ str_join sep ps"
  by (cases ps) auto

lemma str_join_split [simp]: "str_join [c] (str_split c s) = s"
proof (induction s)
  case Nil
  then show ?case by simp
next
  case (Cons x s)
  obtain p ps where s: "str_split c s = p # ps"
    by (cases "str_split c s") auto
  then show ?case using Cons by (cases ps) auto
qed

lemma str_split_join:
  "ps \<noteq> [] \<Longrightarrow> list_all (\<lambda>p. c \<notin> set p) ps \<Longrightarrow> str_split c (str_join [c] ps) = ps"
  by (induction "[c]" ps rule: str_join.induct)
    (auto simp: str_split_absent str_split_append)

lemma str_split_pieces: "p \<in> set (str_split c s) \<Longrightarrow> c \<notin> set p"
  by (induction s arbitrary: p) (auto split: if_splits list.splits)

lemma str_join_append:
  "ps \<noteq> [] \<Longrightarrow> qs \<noteq> [] \<Longrightarrow> str_join sep (ps @ qs) = str_join sep ps @ sep @ str_join sep qs"
proof (induction ps)
  case (Cons p ps)
  then show ?case by (cases "ps = []") (auto simp: str_join_Cons)
qed simp

lemma length_str_join:
  "length (str_join sep ps) = sum_list (map length ps) + length sep * (length ps - 1)"
  by (induction sep ps rule: str_join.induct) auto

lemma str_split_snoc_sep: "str_split c (s @ [c]) = str_split c s @ [[]]"
proof (induction s)
  case Nil
  then show ?case by simp
next
  case (Cons x s)
  then show ?case by (cases "str_split c s") auto
qed

lemma str_split_eq_Nil_iff: "str_split c s = [[]] \<longleftrightarrow> s = []"
  by (cases s) (auto split: list.splits)

lemma last_str_split_Nil_iff:
  "last (str_split c s) = [] \<longleftrightarrow> s = [] \<or> last s = c"
proof (induction s)
  case Nil
  then show ?case by simp
next
  case (Cons x s)
  obtain p ps where "str_split c s = p # ps"
    by (cases "str_split c s") auto
  with Cons show ?case
    using str_split_eq_Nil_iff [of c s] by (cases "ps = []"; cases "s = []") auto
qed

section \<open>Trimming\<close>

text \<open>The one-, two- and three-byte encodings of the \<open>White_Space\<close> characters.\<close>

definition ws1 :: "char \<Rightarrow> bool" where
  "ws1 a \<longleftrightarrow> (9 \<le> byte_of a \<and> byte_of a \<le> 13) \<or> byte_of a = 32"

definition ws2 :: "char \<Rightarrow> char \<Rightarrow> bool" where
  "ws2 a b \<longleftrightarrow> byte_of a = 0xC2 \<and> (byte_of b = 0x85 \<or> byte_of b = 0xA0)"

definition ws3 :: "char \<Rightarrow> char \<Rightarrow> char \<Rightarrow> bool" where
  "ws3 a b c \<longleftrightarrow>
     (byte_of a = 0xE1 \<and> byte_of b = 0x9A \<and> byte_of c = 0x80)
   \<or> (byte_of a = 0xE2 \<and> byte_of b = 0x80 \<and>
        ((0x80 \<le> byte_of c \<and> byte_of c \<le> 0x8A) \<or> byte_of c \<in> {0xA8, 0xA9, 0xAF}))
   \<or> (byte_of a = 0xE2 \<and> byte_of b = 0x81 \<and> byte_of c = 0x9F)
   \<or> (byte_of a = 0xE3 \<and> byte_of b = 0x80 \<and> byte_of c = 0x80)"

text \<open>The byte length of a leading white-space character, 0 when there is none.\<close>

fun ws_len :: "string \<Rightarrow> nat" where
  "ws_len [] = 0"
| "ws_len (a # r) =
     (if ws1 a then 1
      else (case r of [] \<Rightarrow> 0 | b # r' \<Rightarrow>
        if ws2 a b then 2
        else (case r' of [] \<Rightarrow> 0 | c # _ \<Rightarrow> if ws3 a b c then 3 else 0)))"

definition ws_end_len :: "string \<Rightarrow> nat" where
  "ws_end_len s =
     (let n = length s in
      if 1 \<le> n \<and> ws_len (drop (n - 1) s) = 1 then 1
      else if 2 \<le> n \<and> ws_len (drop (n - 2) s) = 2 then 2
      else if 3 \<le> n \<and> ws_len (drop (n - 3) s) = 3 then 3
      else 0)"

lemma ws_len_le: "ws_len s \<le> length s"
  by (cases s) (auto split: list.splits)

lemma ws_end_len_le: "ws_end_len s \<le> length s"
  by (auto simp: ws_end_len_def Let_def)

function str_trim_start :: "string \<Rightarrow> string" where
  "str_trim_start s = (if ws_len s = 0 then s else str_trim_start (drop (ws_len s) s))"
  by pat_completeness auto
termination
proof (relation "measure length")
  fix s :: string
  assume "ws_len s \<noteq> 0"
  then show "(drop (ws_len s) s, s) \<in> measure length"
    using ws_len_le [of s] by (cases s) auto
qed simp

function str_trim_end :: "string \<Rightarrow> string" where
  "str_trim_end s =
     (if ws_end_len s = 0 then s else str_trim_end (take (length s - ws_end_len s) s))"
  by pat_completeness auto
termination
proof (relation "measure length")
  fix s :: string
  assume "ws_end_len s \<noteq> 0"
  then show "(take (length s - ws_end_len s) s, s) \<in> measure length"
    using ws_end_len_le [of s] by (cases s) auto
qed simp

declare str_trim_start.simps [simp del]
declare str_trim_end.simps [simp del]

definition str_trim :: "string \<Rightarrow> string" where
  "str_trim s = str_trim_end (str_trim_start s)"

text \<open>\<open>s.trim_end_matches(c)\<close>.\<close>

definition str_trim_end_char :: "char \<Rightarrow> string \<Rightarrow> string" where
  "str_trim_end_char c s = rev (dropWhile (\<lambda>x. x = c) (rev s))"

text \<open>A trimmed string starts and ends with no white space.\<close>

definition trimmed :: "string \<Rightarrow> bool" where
  "trimmed s \<longleftrightarrow> ws_len s = 0 \<and> ws_end_len s = 0"

lemma str_trim_start_ws_len: "ws_len (str_trim_start s) = 0"
proof (induction s rule: str_trim_start.induct)
  case (1 s)
  then show ?case by (cases "ws_len s = 0") (simp_all add: str_trim_start.simps [of s])
qed

lemma str_trim_end_ws_end_len: "ws_end_len (str_trim_end s) = 0"
proof (induction s rule: str_trim_end.induct)
  case (1 s)
  then show ?case by (cases "ws_end_len s = 0") (simp_all add: str_trim_end.simps [of s])
qed

lemma str_trim_start_suffix: "suffix (str_trim_start s) s"
proof (induction s rule: str_trim_start.induct)
  case (1 s)
  show ?case
  proof (cases "ws_len s = 0")
    case True
    then show ?thesis by (simp add: str_trim_start.simps [of s])
  next
    case False
    with 1 have "suffix (str_trim_start (drop (ws_len s) s)) s"
      using suffix_drop suffix_order.trans by blast
    with False show ?thesis by (simp add: str_trim_start.simps [of s])
  qed
qed

lemma str_trim_end_prefix: "prefix (str_trim_end s) s"
proof (induction s rule: str_trim_end.induct)
  case (1 s)
  show ?case
  proof (cases "ws_end_len s = 0")
    case True
    then show ?thesis by (simp add: str_trim_end.simps [of s])
  next
    case False
    with 1 have "prefix (str_trim_end (take (length s - ws_end_len s) s)) s"
      using take_is_prefix prefix_order.trans by blast
    with False show ?thesis by (simp add: str_trim_end.simps [of s])
  qed
qed

lemma ws_len_prefix_0: "prefix p s \<Longrightarrow> ws_len s = 0 \<Longrightarrow> ws_len p = 0"
  by (cases p; cases s) (auto simp: prefix_def Cons_eq_append_conv split: list.splits if_splits)

lemma trimmed_str_trim: "trimmed (str_trim s)"
  using ws_len_prefix_0 [OF str_trim_end_prefix str_trim_start_ws_len]
  by (simp add: trimmed_def str_trim_def str_trim_end_ws_end_len)

lemma str_trim_id: "trimmed s \<Longrightarrow> str_trim s = s"
  by (simp add: trimmed_def str_trim_def str_trim_start.simps str_trim_end.simps)

lemma str_trim_idem [simp]: "str_trim (str_trim s) = str_trim s"
  by (rule str_trim_id) (rule trimmed_str_trim)

lemma sublist_str_trim: "sublist (str_trim s) s"
proof -
  have "sublist (str_trim s) (str_trim_start s)"
    unfolding str_trim_def by (rule prefix_imp_sublist) (rule str_trim_end_prefix)
  moreover have "sublist (str_trim_start s) s"
    by (rule suffix_imp_sublist) (rule str_trim_start_suffix)
  ultimately show ?thesis by (rule sublist_order.order_trans)
qed

lemma str_trim_end_char_prefix: "prefix (str_trim_end_char c s) s"
proof -
  have "suffix (dropWhile (\<lambda>x. x = c) (rev s)) (rev s)"
    by (rule suffix_dropWhile)
  then show ?thesis by (simp add: str_trim_end_char_def suffix_to_prefix)
qed

lemma str_trim_end_char_last: "str_trim_end_char c s \<noteq> [] \<Longrightarrow> last (str_trim_end_char c s) \<noteq> c"
  unfolding str_trim_end_char_def
  by (metis (mono_tags, lifting) hd_dropWhile last_rev rev_is_Nil_conv)

section \<open>Numbers\<close>

definition digit_char :: "nat \<Rightarrow> char" where
  "digit_char d = char_of (48 + d)"

definition digit_value :: "char \<Rightarrow> nat" where
  "digit_value c = byte_of c - 48"

text \<open>Decimal \<open>Display\<close> of an unsigned integer.\<close>

fun show_nat :: "nat \<Rightarrow> string" where
  "show_nat n = (if n < 10 then [digit_char n] else show_nat (n div 10) @ [digit_char (n mod 10)])"

declare show_nat.simps [simp del]

text \<open>
  \<open>parse\<close>: an optional sign (a minus only for signed types), then one or more digits, and no
  overflow.  \<open>None\<close> is the parse error.
\<close>

definition digits_value :: "string \<Rightarrow> nat" where
  "digits_value s = foldl (\<lambda>n c. 10 * n + digit_value c) 0 s"

definition parse_digits :: "string \<Rightarrow> nat option" where
  "parse_digits s =
     (if s \<noteq> [] \<and> list_all is_ascii_digit s then Some (digits_value s) else None)"

definition parse_i32 :: "string \<Rightarrow> int option" where
  "parse_i32 s =
     (case s of [] \<Rightarrow> None | c # r \<Rightarrow>
        if c = CHR ''-'' then
          (case parse_digits r of
             Some n \<Rightarrow> if n \<le> 2 ^ 31 then Some (- int n) else None | None \<Rightarrow> None)
        else
          (case parse_digits (if c = CHR ''+'' then r else s) of
             Some n \<Rightarrow> if n < 2 ^ 31 then Some (int n) else None | None \<Rightarrow> None))"

definition parse_u64 :: "string \<Rightarrow> u64 option" where
  "parse_u64 s =
     (case s of [] \<Rightarrow> None | c # r \<Rightarrow>
        (case parse_digits (if c = CHR ''+'' then r else s) of
           Some n \<Rightarrow> if n < 2 ^ 64 then Some (word_of_nat n) else None | None \<Rightarrow> None))"

lemma digit_char_props:
  assumes "d < 10"
  shows "is_ascii_digit (digit_char d)" "digit_value (digit_char d) = d"
proof -
  have "byte_of (digit_char d) = 48 + d"
    using assms by (simp add: byte_of_def digit_char_def)
  then show "is_ascii_digit (digit_char d)" "digit_value (digit_char d) = d"
    using assms by (auto simp: is_ascii_digit_def digit_value_def)
qed

lemma digits_value_snoc [simp]: "digits_value (s @ [c]) = 10 * digits_value s + digit_value c"
  by (simp add: digits_value_def)

lemma show_nat_ne [simp]: "show_nat n \<noteq> []"
  by (subst show_nat.simps) simp

lemma show_nat_digits: "list_all is_ascii_digit (show_nat n)"
proof (induction n rule: show_nat.induct)
  case (1 n)
  then show ?case by (simp add: show_nat.simps [of n] digit_char_props)
qed

lemma digits_value_show_nat: "digits_value (show_nat n) = n"
proof (induction n rule: show_nat.induct)
  case (1 n)
  show ?case
  proof (cases "n < 10")
    case True
    then show ?thesis
      by (simp add: show_nat.simps [of n] digits_value_def digit_char_props)
  next
    case False
    then show ?thesis
      using 1 by (simp add: show_nat.simps [of n] digit_char_props)
  qed
qed

lemma parse_digits_show_nat [simp]: "parse_digits (show_nat n) = Some n"
  by (simp add: parse_digits_def show_nat_digits digits_value_show_nat)

lemma show_nat_inj: "show_nat m = show_nat n \<longleftrightarrow> m = n"
  by (metis digits_value_show_nat)

lemma show_nat_hd_digit: "is_ascii_digit (hd (show_nat n))"
  using show_nat_digits [of n] by (cases "show_nat n") auto

lemma parse_i32_show_nat: "n < 2 ^ 31 \<Longrightarrow> parse_i32 (show_nat n) = Some (int n)"
proof -
  assume n: "n < 2 ^ 31"
  obtain c r where s: "show_nat n = c # r"
    by (cases "show_nat n") auto
  with show_nat_hd_digit [of n] have "c \<noteq> CHR ''-''" and "c \<noteq> CHR ''+''"
    by (auto simp: is_ascii_digit_def byte_of_def)
  with n s show ?thesis
    using parse_digits_show_nat [of n] by (simp add: parse_i32_def)
qed

lemma parse_u64_show_nat: "n < 2 ^ 64 \<Longrightarrow> parse_u64 (show_nat n) = Some (word_of_nat n)"
proof -
  assume n: "n < 2 ^ 64"
  obtain c r where s: "show_nat n = c # r" by (cases "show_nat n") auto
  with show_nat_hd_digit [of n] have "c \<noteq> CHR ''+''" by (auto simp: is_ascii_digit_def byte_of_def)
  with n s show ?thesis using parse_digits_show_nat [of n] by (simp add: parse_u64_def)
qed

section \<open>Printable ends\<close>

text \<open>A text that starts and ends with printable ASCII has nothing to trim.\<close>

definition printable :: "char \<Rightarrow> bool" where
  "printable c \<longleftrightarrow> 33 \<le> byte_of c \<and> byte_of c \<le> 126"

lemma ws_len_printable:
  assumes "s \<noteq> []" and "printable (hd s)"
  shows "ws_len s = 0"
proof (cases s)
  case (Cons a r)
  with assms(2) have "\<not> ws1 a" and "\<And>b. \<not> ws2 a b" and "\<And>b c. \<not> ws3 a b c"
    by (auto simp: printable_def ws1_def ws2_def ws3_def)
  with Cons show ?thesis by (simp split: list.splits)
qed (use assms in simp)

lemma ws_len_last_printable:
  assumes "printable b"
  shows "ws_len [b] = 0" and "ws_len [a, b] \<noteq> 2" and "ws_len [a, a', b] \<noteq> 3"
  using assms by (auto simp: printable_def ws1_def ws2_def ws3_def)

lemma ws_end_len_printable:
  assumes "s \<noteq> []" and "printable (last s)"
  shows "ws_end_len s = 0"
proof -
  obtain s1 b where s1: "s = s1 @ [b]" and b: "printable b"
    using assms by (metis append_butlast_last_id)
  note ws = ws_len_last_printable [OF b]
  show ?thesis
  proof (cases s1 rule: rev_cases)
    case Nil
    with s1 ws show ?thesis by (simp add: ws_end_len_def)
  next
    case (snoc s2 a)
    show ?thesis
    proof (cases s2 rule: rev_cases)
      case Nil
      with s1 snoc ws(1) ws(2) [of a] show ?thesis by (simp add: ws_end_len_def)
    next
      case (snoc s3 a')
      with s1 \<open>s1 = s2 @ [a]\<close> have s: "s = s3 @ [a', a, b]" by simp
      show ?thesis
        unfolding s ws_end_len_def
        using ws(1) ws(2) [of a] ws(3) [of a' a] by (simp del: ws_len.simps)
    qed
  qed
qed

lemma printable_trimmed:
  "s \<noteq> [] \<Longrightarrow> printable (hd s) \<Longrightarrow> printable (last s) \<Longrightarrow> trimmed s"
  by (simp add: trimmed_def ws_len_printable ws_end_len_printable)

lemma str_rfind_append: "str_rfind pat s = Some k \<Longrightarrow> str_rfind pat (p @ s) = Some (length p + k)"
  by (induction p) auto

lemma str_trim_end_char_snoc: "str_trim_end_char c (s @ [c]) = str_trim_end_char c s"
  by (simp add: str_trim_end_char_def)

lemma str_trim_end_char_id: "s = [] \<or> last s \<noteq> c \<Longrightarrow> str_trim_end_char c s = s"
  by (cases s rule: rev_cases) (auto simp: str_trim_end_char_def)

text \<open>\<open>Display\<close> of a signed integer.\<close>

definition show_int :: "int \<Rightarrow> string" where
  "show_int i = (if i < 0 then CHR ''-'' # show_nat (nat (- i)) else show_nat (nat i))"

lemma digit_printable: "is_ascii_digit c \<Longrightarrow> printable c"
  by (simp add: is_ascii_digit_def printable_def)

lemma show_int_trim: "str_trim (show_int i) = show_int i"
proof (rule str_trim_id, rule printable_trimmed)
  have "list_all is_ascii_digit (show_nat n) \<and> show_nat n \<noteq> []" for n by (simp add: show_nat_digits)
  then have "list_all printable (show_nat n) \<and> show_nat n \<noteq> []" for n
    by (auto simp: list_all_iff digit_printable)
  moreover have "printable (CHR ''-'')" by (simp add: printable_def byte_of_def)
  ultimately have all: "list_all printable (show_int i)" and ne: "show_int i \<noteq> []"
    by (simp_all add: show_int_def)
  then show "printable (hd (show_int i))" "printable (last (show_int i))" by (simp_all add: list_all_iff)
  show "show_int i \<noteq> []" by (rule ne)
qed

lemma parse_i32_show_int:
  assumes "- (2 ^ 31) \<le> i" and "i < 2 ^ 31"
  shows "parse_i32 (show_int i) = Some i"
proof (cases "i < 0")
  case True
  with assms(1) have "nat (- i) \<le> 2 ^ 31" by simp
  with True show ?thesis by (simp add: show_int_def parse_i32_def)
next
  case False
  with assms(2) parse_i32_show_nat [of "nat i"] show ?thesis by (simp add: show_int_def)
qed

end
