(* ===== verification/RustPath.thy ===== *)
theory RustPath
  imports RustStr
begin

text \<open>
  \<open>std::path\<close> on Unix, as far as the program uses it: \<open>Path::components\<close>, equality of paths
  (which compares components) and \<open>PathBuf::join\<close>.  Windows prefixes do not occur on Unix.
\<close>

datatype component = RootDir | CurDir | ParentDir | Normal string

definition piece_components :: "string \<Rightarrow> component list" where
  "piece_components p =
     (if p = [] \<or> p = ''.'' then [] else if p = ''..'' then [ParentDir] else [Normal p])"

text \<open>A \<open>.\<close> component is reported only at the start of a relative path.\<close>

definition components :: "string \<Rightarrow> component list" where
  "components path =
     (let ps = str_split (CHR ''/'') path
      in (if prefix ''/'' path then [RootDir] else if hd ps = ''.'' then [CurDir] else [])
         @ concat (map piece_components ps))"

definition path_eq :: "string \<Rightarrow> string \<Rightarrow> bool" where
  "path_eq p q \<longleftrightarrow> components p = components q"

definition path_join :: "string \<Rightarrow> string \<Rightarrow> string" where
  "path_join p q =
     (if prefix ''/'' q then q
      else if p \<noteq> [] \<and> last p \<noteq> CHR ''/'' then p @ ''/'' @ q
      else p @ q)"

text \<open>A file name: not empty, no separator, not one of the two special names.\<close>

definition plain_name :: "string \<Rightarrow> bool" where
  "plain_name n \<longleftrightarrow> n \<noteq> [] \<and> CHR ''/'' \<notin> set n \<and> n \<noteq> ''.'' \<and> n \<noteq> ''..''"

lemma piece_components_plain: "plain_name n \<Longrightarrow> piece_components n = [Normal n]"
  by (simp add: plain_name_def piece_components_def)

lemma piece_components_Nil [simp]: "piece_components [] = []"
  by (simp add: piece_components_def)

lemma plain_no_sep: "plain_name n \<Longrightarrow> CHR ''/'' \<notin> set n"
  by (simp add: plain_name_def)

lemma plain_not_absolute: "plain_name n \<Longrightarrow> \<not> prefix ''/'' n"
  by (auto simp: plain_name_def prefix_def)

lemma str_split_slash_append:
  "str_split c (p @ c # q) = str_split c p @ str_split c q"
proof (induction p)
  case (Cons x p)
  then show ?case
    using str_split_ne [of c p] by (cases "str_split c p") auto
qed simp

lemma hd_str_split_append: "hd (str_split c (p @ c # q)) = hd (str_split c p)"
  by (simp add: str_split_slash_append)

lemma prefix_slash_append: "p \<noteq> [] \<Longrightarrow> prefix ''/'' (p @ q) \<longleftrightarrow> prefix ''/'' p"
  by (cases p) auto

text \<open>Joining a file name appends one component.\<close>

lemma components_append_sep:
  assumes "p \<noteq> []"
  shows "components (p @ CHR ''/'' # n) =
     components p @ concat (map piece_components (str_split (CHR ''/'') n))"
  using assms
  by (simp add: components_def Let_def str_split_slash_append prefix_slash_append)

lemma last_slash_split:
  assumes "p \<noteq> []" and "last p = c"
  obtains p' where "p = p' @ [c]"
  using assms by (metis append_butlast_last_id)

lemma components_join_plain:
  assumes "p \<noteq> []" and n: "plain_name n"
  shows "components (path_join p n) = components p @ [Normal n]"
proof (cases "last p = CHR ''/''")
  case False
  with assms plain_not_absolute [OF n] show ?thesis
    by (simp add: path_join_def components_append_sep str_split_absent plain_no_sep
        piece_components_plain)
next
  case True
  obtain p' where p': "p = p' @ ''/''"
    using last_slash_split [OF assms(1) True] by blast
  show ?thesis
  proof (cases "p' = []")
    case True
    with n plain_not_absolute [OF n] p' show ?thesis
      by (simp add: path_join_def components_def str_split_absent plain_no_sep
          piece_components_plain Let_def)
  next
    case False
    then have "components p = components p'"
      using components_append_sep [of p' "[]"] p' by simp
    with False n plain_not_absolute [OF n] p' show ?thesis
      by (simp add: path_join_def components_append_sep str_split_absent plain_no_sep
          piece_components_plain)
  qed
qed

lemma path_join_ne: "p \<noteq> [] \<Longrightarrow> path_join p n \<noteq> []"
  by (auto simp: path_join_def)

lemma components_root [simp]: "components ''/'' = [RootDir]"
  by (simp add: components_def piece_components_def Let_def)

lemma components_normal_plain: "Normal n \<in> set (components p) \<Longrightarrow> plain_name n"
  by (auto simp: components_def Let_def piece_components_def plain_name_def
      dest: str_split_pieces split: if_splits)

end
