(* ===== verification/Inode.thy ===== *)
theory Inode
  imports RustPath
begin

text \<open>
  \<open>InodeTable\<close> of \<open>src/inode.rs\<close>: the two maps between inode numbers and paths, the hash-seeded
  allocation with linear probing, and the reverse lookup.

  \<open>h\<close> stands for \<open>ahash::RandomState::hash_one\<close> with the fixed seeds; it is a function of the
  path's components because \<open>Hash\<close> agrees with \<open>Eq\<close> on \<open>Path\<close>.  The \<open>reverse\<close> map has \<open>PathBuf\<close>
  keys, which are equal when their components are, so its key is the component list.  The probe
  is a \<open>loop\<close> without a bound: it is a partial function, and its termination is proved.
\<close>

definition INO_ROOT :: u64 where "INO_ROOT = 1"

record inode_table =
  forward :: "(u64, string) fmap"
  reverse :: "(component list, u64) fmap"
  bump :: u64

definition inode_new :: inode_table where
  "inode_new =
     \<lparr>forward = fmupd INO_ROOT ''/'' fmempty,
      reverse = fmupd (components ''/'') INO_ROOT fmempty,
      bump = 0\<rparr>"

definition inode_hash :: "(component list \<Rightarrow> u64) \<Rightarrow> string \<Rightarrow> u64" where
  "inode_hash h path = or (h (components path)) 2"

partial_function (option) probe :: "string \<Rightarrow> u64 \<Rightarrow> inode_table \<Rightarrow> (u64 \<times> inode_table) option" where
  "probe path ino t =
     (if ino = INO_ROOT then
        probe path (ino + (bump t + 1)) (t\<lparr>bump := bump t + 1\<rparr>)
      else
        (case fmlookup (forward t) ino of
           Some p \<Rightarrow>
             if path_eq p path then
               Some (ino, t\<lparr>reverse := fmupd (components path) ino (reverse t)\<rparr>)
             else probe path (ino + 1) t
         | None \<Rightarrow>
             Some (ino, t\<lparr>forward := fmupd ino path (forward t),
                          reverse := fmupd (components path) ino (reverse t)\<rparr>)))"

definition inode_allocate ::
  "(component list \<Rightarrow> u64) \<Rightarrow> string \<Rightarrow> inode_table \<Rightarrow> (u64 \<times> inode_table) option" where
  "inode_allocate h path t =
     (case fmlookup (reverse t) (components path) of
        Some existing \<Rightarrow> Some (existing, t)
      | None \<Rightarrow> probe path (max (inode_hash h path) 100) t)"

definition inode_lookup :: "inode_table \<Rightarrow> u64 \<Rightarrow> string option" where
  "inode_lookup t ino = fmlookup (forward t) ino"

section \<open>The contract of an allocator of identifiers\<close>

text \<open>
  \<open>same\<close> is the equality of names.  The file system relies on these laws: a known name keeps its
  number, a number names one name only, and an allocation disturbs no earlier one.
\<close>

locale alloc_table =
  fixes alloc :: "'p \<Rightarrow> 't \<Rightarrow> ('i \<times> 't) option"
    and look :: "'t \<Rightarrow> 'i \<Rightarrow> 'p option"
    and same :: "'p \<Rightarrow> 'p \<Rightarrow> bool"
    and inv :: "'t \<Rightarrow> bool"
  assumes same_sym: "same p q \<Longrightarrow> same q p"
    and same_trans: "same p q \<Longrightarrow> same q r \<Longrightarrow> same p r"
    and alloc_inv: "inv t \<Longrightarrow> alloc p t = Some (i, t') \<Longrightarrow> inv t'"
    and alloc_look: "inv t \<Longrightarrow> alloc p t = Some (i, t') \<Longrightarrow> \<exists>q. look t' i = Some q \<and> same q p"
    and alloc_frame: "inv t \<Longrightarrow> alloc p t = Some (i, t') \<Longrightarrow> look t j = Some q \<Longrightarrow> look t' j = Some q"
    and look_inj: "inv t \<Longrightarrow> look t i = Some p \<Longrightarrow> look t j = Some q \<Longrightarrow> same p q \<longleftrightarrow> i = j"
    and alloc_known: "inv t \<Longrightarrow> look t i = Some q \<Longrightarrow> same q p \<Longrightarrow> alloc p t = Some (i, t)"
begin

lemma alloc_again:
  assumes "inv t" and "alloc p t = Some (i, t')" and "same p q"
  shows "alloc q t' = Some (i, t')"
proof -
  obtain r where r: "look t' i = Some r" "same r p"
    using alloc_look [OF assms(1,2)] by blast
  have "same r q" using r(2) assms(3) by (rule same_trans)
  with r(1) show ?thesis by (rule alloc_known [OF alloc_inv [OF assms(1,2)]])
qed

lemma alloc_stable:
  assumes "inv t" and "alloc p t = Some (i, t')" and "alloc q t' = Some (j, t'')" and "same p q"
  shows "j = i \<and> t'' = t'"
  using alloc_again [OF assms(1,2,4)] assms(3) by simp

lemma alloc_distinct:
  assumes t: "inv t" and p: "alloc p t = Some (i, t')" and q: "alloc q t' = Some (j, t'')"
    and "\<not> same p q"
  shows "i \<noteq> j"
proof
  assume "i = j"
  have t': "inv t'" using t p by (rule alloc_inv)
  obtain r where r: "look t' i = Some r" "same r p"
    using alloc_look [OF t p] by blast
  obtain s where s: "look t'' j = Some s" "same s q"
    using alloc_look [OF t' q] by blast
  have "look t'' i = Some r" using t' q r(1) by (rule alloc_frame)
  with s \<open>i = j\<close> have "r = s" by simp
  with r s have "same p q" using same_sym same_trans by blast
  with assms(4) show False ..
qed

end

section \<open>The invariant\<close>

text \<open>The two maps are inverse to each other, and the root is pinned.\<close>

definition inode_wf :: "inode_table \<Rightarrow> bool" where
  "inode_wf t \<longleftrightarrow>
     fmlookup (forward t) INO_ROOT = Some ''/''
   \<and> (\<forall>i p. fmlookup (forward t) i = Some p \<longrightarrow> fmlookup (reverse t) (components p) = Some i)
   \<and> (\<forall>c i. fmlookup (reverse t) c = Some i \<longrightarrow>
            (\<exists>p. fmlookup (forward t) i = Some p \<and> components p = c))"

lemma inode_wf_forward: "inode_wf t \<Longrightarrow> fmlookup (forward t) i = Some p \<Longrightarrow> fmlookup (reverse t) (components p) = Some i"
  by (simp add: inode_wf_def)

lemma inode_wf_reverse:
  assumes "inode_wf t" and "fmlookup (reverse t) c = Some i"
  obtains p where "fmlookup (forward t) i = Some p" and "components p = c"
  using assms unfolding inode_wf_def by blast

lemma inode_wf_bump: "inode_wf t \<Longrightarrow> inode_wf (t\<lparr>bump := b\<rparr>)"
  by (simp add: inode_wf_def)

lemma inode_new_wf [wf_intros]: "inode_wf inode_new"
  by (auto simp: inode_wf_def inode_new_def)

lemma inode_wf_insert:
  assumes wf: "inode_wf t" and free: "fmlookup (forward t) i = None"
    and fresh: "fmlookup (reverse t) (components p) = None"
  shows "inode_wf (t\<lparr>forward := fmupd i p (forward t),
                     reverse := fmupd (components p) i (reverse t)\<rparr>)"
proof -
  have "i \<noteq> INO_ROOT" using wf free by (auto simp: inode_wf_def)
  have "components q \<noteq> components p" if "fmlookup (forward t) j = Some q" for j q
    using inode_wf_forward [OF wf that] fresh by auto
  moreover have "j \<noteq> i" if "fmlookup (reverse t) c = Some j" for c j
    using that free by (auto elim: inode_wf_reverse [OF wf])
  ultimately show ?thesis
    using wf \<open>i \<noteq> INO_ROOT\<close> unfolding inode_wf_def by (simp add: fmlookup_dom_iff) metis
qed

text \<open>What the probe returns, by induction over its run.\<close>

definition probe_post :: "string \<Rightarrow> inode_table \<Rightarrow> u64 \<Rightarrow> inode_table \<Rightarrow> bool" where
  "probe_post path t i t' \<longleftrightarrow>
     i \<noteq> INO_ROOT \<and> fmlookup (forward t) i = None
   \<and> forward t' = fmupd i path (forward t)
   \<and> reverse t' = fmupd (components path) i (reverse t)"

lemma probe_result:
  assumes ret: "probe path ino t = Some r"
    and "inode_wf t" and "fmlookup (reverse t) (components path) = None"
  shows "probe_post path t (fst r) (snd r)"
proof -
  have "inode_wf t \<Longrightarrow> fmlookup (reverse t) (components path) = None \<Longrightarrow>
      probe_post path t (fst r) (snd r)"
  proof (rule probe.raw_induct [where P = "\<lambda>path ino t r. inode_wf t \<longrightarrow>
        fmlookup (reverse t) (components path) = None \<longrightarrow> probe_post path t (fst r) (snd r)",
        OF _ ret, THEN mp, THEN mp])
    fix f path ino t r
    assume IH: "\<And>path ino t r. f path ino t = Some r \<Longrightarrow> inode_wf t \<longrightarrow>
        fmlookup (reverse t) (components path) = None \<longrightarrow> probe_post path t (fst r) (snd r)"
      and eq: "(if ino = INO_ROOT then f path (ino + (bump t + 1)) (t\<lparr>bump := bump t + 1\<rparr>)
        else case fmlookup (forward t) ino of
            None \<Rightarrow> Some (ino, t\<lparr>forward := fmupd ino path (forward t),
                          reverse := fmupd (components path) ino (reverse t)\<rparr>)
          | Some p \<Rightarrow> if path_eq p path
              then Some (ino, t\<lparr>reverse := fmupd (components path) ino (reverse t)\<rparr>)
              else f path (ino + 1) t) = Some r"
    show "inode_wf t \<longrightarrow> fmlookup (reverse t) (components path) = None \<longrightarrow>
        probe_post path t (fst r) (snd r)"
    proof (intro impI)
      assume wf: "inode_wf t" and none: "fmlookup (reverse t) (components path) = None"
      consider (root) "ino = INO_ROOT" | (free) "ino \<noteq> INO_ROOT" "fmlookup (forward t) ino = None"
        | (taken) p where "ino \<noteq> INO_ROOT" "fmlookup (forward t) ino = Some p"
        by (cases "fmlookup (forward t) ino") auto
      then show "probe_post path t (fst r) (snd r)"
      proof cases
        case root
        with eq have "f path (ino + (bump t + 1)) (t\<lparr>bump := bump t + 1\<rparr>) = Some r" by simp
        then have "probe_post path (t\<lparr>bump := bump t + 1\<rparr>) (fst r) (snd r)"
          using IH inode_wf_bump [OF wf] none by fastforce
        then show ?thesis by (simp add: probe_post_def)
      next
        case free
        with eq show ?thesis by (auto simp: probe_post_def)
      next
        case taken
        then have "\<not> path_eq p path"
          using inode_wf_forward [OF wf] none by (fastforce simp: path_eq_def)
        with eq taken have "f path (ino + 1) t = Some r" by simp
        then show ?thesis using IH wf none by blast
      qed
    qed
  qed
  then show ?thesis using assms by blast
qed

lemma inode_allocate_cases:
  assumes "inode_wf t" and "inode_allocate h path t = Some (i, t')"
  shows "(fmlookup (reverse t) (components path) = Some i \<and> t' = t)
     \<or> (fmlookup (reverse t) (components path) = None \<and> probe_post path t i t')"
  using assms probe_result [of path _ t "(i, t')"]
  by (auto simp: inode_allocate_def split: option.splits)

lemma inode_allocate_wf [wf_intros]:
  assumes "inode_wf t" and "inode_allocate h path t = Some (i, t')"
  shows "inode_wf t'"
  using inode_allocate_cases [OF assms]
proof
  assume *: "fmlookup (reverse t) (components path) = None \<and> probe_post path t i t'"
  then have "inode_wf (t\<lparr>forward := fmupd i path (forward t),
                         reverse := fmupd (components path) i (reverse t)\<rparr>)"
    using inode_wf_insert [OF assms(1)] by (simp add: probe_post_def)
  with * show ?thesis by (simp add: inode_wf_def probe_post_def)
qed (use assms in simp)

lemma inode_allocate_lookup:
  assumes "inode_wf t" and "inode_allocate h path t = Some (i, t')"
  shows "\<exists>q. inode_lookup t' i = Some q \<and> path_eq q path"
  using inode_allocate_cases [OF assms]
proof
  assume "fmlookup (reverse t) (components path) = Some i \<and> t' = t"
  then show ?thesis
    using inode_wf_reverse [OF assms(1)] by (metis inode_lookup_def path_eq_def)
qed (auto simp: inode_lookup_def probe_post_def path_eq_def)

lemma inode_allocate_frame:
  assumes "inode_wf t" and "inode_allocate h path t = Some (i, t')" and "inode_lookup t j = Some q"
  shows "inode_lookup t' j = Some q"
  using inode_allocate_cases [OF assms(1,2)] assms(3)
  by (auto simp: inode_lookup_def probe_post_def)

lemma inode_lookup_inj:
  assumes "inode_wf t" and "inode_lookup t i = Some p" and "inode_lookup t j = Some q"
  shows "path_eq p q \<longleftrightarrow> i = j"
proof -
  have "fmlookup (reverse t) (components p) = Some i"
    and "fmlookup (reverse t) (components q) = Some j"
    using assms(2,3) by (simp_all add: inode_lookup_def inode_wf_forward [OF assms(1)])
  with assms(2,3) show ?thesis
    by (auto simp: inode_lookup_def path_eq_def)
qed

lemma inode_allocate_known:
  assumes "inode_wf t" and "inode_lookup t i = Some q" and "path_eq q p"
  shows "inode_allocate h p t = Some (i, t)"
  using inode_wf_forward [OF assms(1)] assms(2,3)
  by (fastforce simp: inode_lookup_def path_eq_def inode_allocate_def)

interpretation ino: alloc_table "inode_allocate h" inode_lookup path_eq inode_wf for h
proof
  show "\<And>p q. path_eq p q \<Longrightarrow> path_eq q p" by (simp add: path_eq_def)
  show "\<And>p q r. path_eq p q \<Longrightarrow> path_eq q r \<Longrightarrow> path_eq p r" by (simp add: path_eq_def)
qed (fact inode_allocate_wf inode_allocate_lookup inode_allocate_frame inode_lookup_inj
      inode_allocate_known)+

lemma inode_allocate_root_iff:
  assumes "inode_wf t" and "inode_allocate h path t = Some (i, t')"
  shows "i = INO_ROOT \<longleftrightarrow> components path = [RootDir]"
proof -
  have fwd: "fmlookup (forward t) INO_ROOT = Some ''/''"
    using assms(1) by (simp add: inode_wf_def)
  then have rev: "fmlookup (reverse t) [RootDir] = Some INO_ROOT"
    using inode_wf_forward [OF assms(1), of INO_ROOT "''/''"] by simp
  have "components path = [RootDir]" if known: "fmlookup (reverse t) (components path) = Some INO_ROOT"
    using inode_wf_reverse [OF assms(1) known] fwd by fastforce
  then show ?thesis
    using inode_allocate_cases [OF assms] rev by (auto simp: probe_post_def)
qed

section \<open>Termination of the probe\<close>

lemma probe_root:
  "probe path 1 t = probe path (2 + bump t) (t\<lparr>bump := bump t + 1\<rparr>)"
  by (subst probe.simps) (simp add: INO_ROOT_def add.commute)

lemma probe_next:
  assumes "ino \<noteq> 1"
  shows "(\<exists>r. probe path ino t = Some r) \<or> probe path ino t = probe path (ino + 1) t"
proof -
  have "probe path ino t =
     (case fmlookup (forward t) ino of
        Some p \<Rightarrow>
          if path_eq p path then
            Some (ino, t\<lparr>reverse := fmupd (components path) ino (reverse t)\<rparr>)
          else probe path (ino + 1) t
      | None \<Rightarrow>
          Some (ino, t\<lparr>forward := fmupd ino path (forward t),
                       reverse := fmupd (components path) ino (reverse t)\<rparr>))"
    using assms by (subst probe.simps) (simp add: INO_ROOT_def)
  then show ?thesis by (auto split: option.splits)
qed

lemma probe_free:
  "ino \<noteq> 1 \<Longrightarrow> fmlookup (forward t) ino = None \<Longrightarrow> \<exists>r. probe path ino t = Some r"
  by (subst probe.simps) (simp add: INO_ROOT_def)

lemma u64_small: "\<not> 2 \<le> unat (j :: u64) \<Longrightarrow> j = 0 \<or> j = 1"
  by (auto simp: word_unat_eq_iff)

lemma u64_ge_2: "(f :: u64) \<noteq> 0 \<Longrightarrow> f \<noteq> 1 \<Longrightarrow> 2 \<le> f"
  using u64_small [of f] by (auto simp: word_le_nat_alt)

lemma unat_plus1: "unat (x :: u64) + 1 < 2 ^ 64 \<Longrightarrow> unat (x + 1) = unat x + 1"
  by (simp add: unat_word_ariths)

text \<open>From \<open>ino\<close> upwards the probe passes every slot until it returns.\<close>

lemma probe_walk:
  assumes "2 \<le> unat ino" and "unat ino + k < 2 ^ 64"
  shows "(\<exists>r. probe path ino t = Some r) \<or> probe path ino t = probe path (ino + word_of_nat k) t"
  using assms(2)
proof (induction k)
  case (Suc k)
  let ?j = "ino + word_of_nat k"
  have "unat ?j = unat ino + k"
    using Suc.prems by (simp add: unat_word_ariths unat_of_nat)
  with assms(1) have "?j \<noteq> 1" by (metis Suc_1 add_leD1 not_less_eq_eq unat_1 le_refl)
  with Suc probe_next [of ?j path t] show ?case by (auto simp: algebra_simps)
qed simp

lemma probe_reaches:
  assumes "2 \<le> unat ino" and "ino \<le> f" and free: "fmlookup (forward t) f = None"
  shows "\<exists>r. probe path ino t = Some r"
proof -
  let ?k = "unat f - unat ino"
  have le: "unat ino \<le> unat f" using assms(2) by (simp add: word_le_nat_alt)
  have f: "ino + word_of_nat ?k = f"
    using le by (simp add: word_unat_eq_iff unat_word_ariths unat_of_nat)
  have "f \<noteq> 1" using assms(1) le by auto
  then have "\<exists>r. probe path f t = Some r" using free by (rule probe_free)
  then show ?thesis
    using probe_walk [OF assms(1), of ?k path t] le f by auto
qed

text \<open>Past the last slot the probe wraps to 0.\<close>

lemma probe_wrap:
  assumes "2 \<le> unat ino"
  shows "(\<exists>r. probe path ino t = Some r) \<or> probe path ino t = probe path 0 t"
proof -
  let ?k = "2 ^ 64 - 1 - unat ino"
  have le: "unat ino \<le> 18446744073709551615"
    using unat_less_64 [of ino] by linarith
  then have j: "ino + word_of_nat ?k = - 1"
    by (simp add: word_unat_eq_iff unat_word_ariths unat_of_nat unsigned_minus_1_eq_mask
        mask_eq_exp_minus_1)
  have "(\<exists>r. probe path ino t = Some r) \<or> probe path ino t = probe path (- 1) t"
  proof -
    have "unat ino + ?k < 2 ^ 64" using le by simp
    then show ?thesis using probe_walk [OF assms, of ?k path t] by (simp only: j)
  qed
  then show ?thesis using probe_next [of "- 1" path t] by auto
qed

lemma unat_neg_Suc:
  assumes "(b :: u64) \<noteq> 0"
  shows "unat (- (b + 1)) < unat (- b)"
proof -
  have "- (b + 1) = - b - 1" by simp
  moreover have "- b \<noteq> 0" using assms by simp
  ultimately show ?thesis by (metis measure_unat)
qed

lemma probe_from_root:
  assumes "f \<noteq> 1" and "fmlookup (forward t) f = None"
  shows "\<exists>r. probe path 1 t = Some r"
  using assms(2)
proof (induction "unat (- bump t)" arbitrary: t rule: less_induct)
  case less
  let ?t = "t\<lparr>bump := bump t + 1\<rparr>"
  have free: "fmlookup (forward ?t) f = None" using less.prems by simp
  have zero: "(\<exists>r. probe path 0 ?t = Some r) \<or> probe path 0 ?t = probe path 1 ?t"
    using probe_next [of 0 path ?t] by simp
  have up: "(\<exists>r. probe path j ?t = Some r) \<or> probe path j ?t = probe path 1 ?t" for j
  proof (cases "2 \<le> unat j")
    case True
    then show ?thesis using probe_wrap [of j path ?t] zero by auto
  next
    case False
    then have "j = 0 \<or> j = 1" by (rule u64_small)
    then show ?thesis using zero by auto
  qed
  show ?case
  proof (cases "bump t = 0")
    case True
    show ?thesis
    proof (cases "f = 0")
      case True
      then show ?thesis
        using probe_free [of 0 ?t path] probe_wrap [of 2 path ?t] free \<open>bump t = 0\<close>
        by (auto simp: probe_root [of path t])
    next
      case False
      with assms(1) have "2 \<le> f" by (simp add: u64_ge_2)
      then show ?thesis
        using probe_reaches [of 2 f ?t path] free True by (simp add: probe_root [of path t])
    qed
  next
    case False
    have "unat (- bump ?t) < unat (- bump t)"
      using unat_neg_Suc [OF False] by simp
    then have "\<exists>r. probe path 1 ?t = Some r" using free by (rule less.hyps)
    then show ?thesis using up [of "2 + bump t"] by (auto simp: probe_root [of path t])
  qed
qed

lemma probe_terminates:
  assumes "f \<noteq> 1" and "fmlookup (forward t) f = None"
  shows "\<exists>r. probe path ino t = Some r"
proof -
  have one: "\<exists>r. probe path 1 t = Some r" using assms by (rule probe_from_root)
  have zero: "\<exists>r. probe path 0 t = Some r" using one probe_next [of 0 path t] by auto
  show ?thesis
  proof (cases "2 \<le> unat ino")
    case True
    then show ?thesis using probe_wrap [of ino path t] zero by auto
  next
    case False
    then have "ino = 0 \<or> ino = 1" by (rule u64_small)
    then show ?thesis using one zero by auto
  qed
qed

text \<open>A table that does not hold all \<open>2 ^ 64\<close> numbers has room for one more path.\<close>

definition inode_count :: "inode_table \<Rightarrow> nat" where
  "inode_count t = fcard (fmdom (forward t))"

lemma inode_free:
  assumes "inode_wf t" and "inode_count t < 2 ^ 64"
  shows "\<exists>f. f \<noteq> 1 \<and> fmlookup (forward t) f = None"
proof (rule ccontr)
  assume "\<not> ?thesis"
  then have "f \<in> fset (fmdom (forward t))" if "f \<noteq> 1" for f
    using that by (auto simp: fmlookup_dom_iff)
  moreover have "1 \<in> fset (fmdom (forward t))"
    using assms(1) by (auto simp: inode_wf_def INO_ROOT_def fmlookup_dom_iff)
  ultimately have "f \<in> fset (fmdom (forward t))" for f by (cases "f = 1") blast+
  then have "fset (fmdom (forward t)) = UNIV" by blast
  then have "inode_count t = 2 ^ 64"
    by (simp add: inode_count_def fcard.rep_eq card_word)
  with assms(2) show False by simp
qed

lemma inode_allocate_returns:
  assumes "inode_wf t" and "inode_count t < 2 ^ 64"
  shows "\<exists>i t'. inode_allocate h path t = Some (i, t')"
proof -
  obtain f where "f \<noteq> 1" "fmlookup (forward t) f = None" using inode_free [OF assms] by blast
  then have "\<exists>r. probe path j t = Some r" for j by (rule probe_terminates)
  then show ?thesis by (fastforce simp: inode_allocate_def split: option.split)
qed

lemma inode_allocate_count:
  assumes "inode_wf t" and "inode_allocate h path t = Some (i, t')"
  shows "inode_count t' \<le> inode_count t + 1"
  using inode_allocate_cases [OF assms]
  by (auto simp: probe_post_def inode_count_def fcard.rep_eq card_insert_if)

end
