(* ===== verification/Errors.thy ===== *)
theory Errors
  imports RustStr
begin

text \<open>
  The error types of \<open>src/error.rs\<close>, their mapping to POSIX errno values, and the parser that
  reads a structured ClickHouse exception out of an HTTP error response.

  An errno is a constructor named after the \<open>libc\<close> constant, because the numbers differ between
  the supported platforms; \<open>OsErrno n\<close> is a raw number that the operating system reported.
  A ClickHouse code is an \<open>i32\<close> that the program only compares, so it is an \<open>int\<close> in the range
  that \<open>parse\<close> enforces.
\<close>

section \<open>Error types\<close>

datatype errno =
    ENOENT | EINTR | EIO | EBADF | EAGAIN | ENOMEM | EACCES | ENOTDIR | EISDIR | EROFS
  | ETIMEDOUT | ECANCELED | OsErrno int

record io_error =
  raw_os_error :: "int option"
  io_message :: string

datatype query_error =
    Transport string
  | Server u16 string
  | ClickHouse int string string
  | Auth
  | Stream string

datatype clickfs_error =
    NotFound
  | NotADir
  | ReadOnly
  | ReadOrder u64 u64
  | InvalidIdentifier string
  | Query query_error
  | Cancelled
  | Io io_error
  | Internal string

definition clickhouse_code_name :: "int \<Rightarrow> string" where
  "clickhouse_code_name code =
     (if code = 60 then ''UNKNOWN_TABLE''
      else if code = 81 then ''UNKNOWN_DATABASE''
      else if code = 159 then ''TIMEOUT_EXCEEDED''
      else if code = 164 then ''READONLY''
      else if code = 192 then ''AUTHENTICATION_FAILED''
      else if code = 194 then ''WRONG_PASSWORD''
      else if code = 202 then ''TOO_MANY_SIMULTANEOUS_QUERIES''
      else if code = 241 then ''MEMORY_LIMIT_EXCEEDED''
      else if code = 394 then ''QUERY_WAS_CANCELLED''
      else ''UNKNOWN'')"

definition clickhouse_code_to_errno :: "int \<Rightarrow> errno" where
  "clickhouse_code_to_errno code =
     (if code = 60 \<or> code = 81 then ENOENT
      else if code = 159 then ETIMEDOUT
      else if code = 164 then EROFS
      else if code = 192 \<or> code = 194 then EACCES
      else if code = 202 then EAGAIN
      else if code = 241 then ENOMEM
      else if code = 394 then ECANCELED
      else EIO)"

fun query_errno :: "query_error \<Rightarrow> errno" where
  "query_errno (Transport _) = EIO"
| "query_errno (Server status _) =
     (if status = 401 \<or> status = 403 then EACCES
      else if status = 404 then ENOENT
      else EIO)"
| "query_errno (ClickHouse code _ _) = clickhouse_code_to_errno code"
| "query_errno Auth = EACCES"
| "query_errno (Stream _) = EIO"

fun to_errno :: "clickfs_error \<Rightarrow> errno" where
  "to_errno NotFound = ENOENT"
| "to_errno NotADir = ENOTDIR"
| "to_errno ReadOnly = EROFS"
| "to_errno (ReadOrder _ _) = EIO"
| "to_errno (InvalidIdentifier _) = ENOENT"
| "to_errno Cancelled = EINTR"
| "to_errno (Io e) = (case raw_os_error e of Some n \<Rightarrow> OsErrno n | None \<Rightarrow> EIO)"
| "to_errno (Query qe) = query_errno qe"
| "to_errno (Internal _) = EIO"

text \<open>
  \<open>reqwest::Error\<close> is a third-party type: the code reads its optional HTTP status and its text.
\<close>

record reqwest_error =
  re_status :: "u16 option"
  re_text :: string

definition query_error_from :: "reqwest_error \<Rightarrow> query_error" where
  "query_error_from e =
     (case re_status e of
        Some status \<Rightarrow> Server status (re_text e)
      | None \<Rightarrow> Transport (re_text e))"

text \<open>
  \<open>Compact\<close> (unused by the program): slicing at byte 200 panics inside a character, which is the
  result \<open>None\<close>.
\<close>

definition compact_fmt :: "string \<Rightarrow> string option" where
  "compact_fmt s =
     (if 200 < length s then
        (if is_char_boundary s 200 then Some (take 200 s @ ''...'') else None)
      else Some s)"

section \<open>Parsing a ClickHouse exception\<close>

definition clean_message :: "string \<Rightarrow> string" where
  "clean_message s0 =
     (let s = str_trim s0;
          s1 = (case str_rfind '' (version'' s of Some i \<Rightarrow> take i s | None \<Rightarrow> s)
      in str_trim (str_trim_end_char (CHR ''.'') s1))"

definition parse_clickhouse_error :: "string option \<Rightarrow> string \<Rightarrow> (int \<times> string) option" where
  "parse_clickhouse_error header_code body =
     (case (case header_code of Some s \<Rightarrow> parse_i32 (str_trim s) | None \<Rightarrow> None) of
        Some code \<Rightarrow> Some (code, clean_message body)
      | None \<Rightarrow>
         (case str_find ''Code:'' body of
            None \<Rightarrow> None
          | Some idx \<Rightarrow>
              (let after = drop (idx + length ''Code:'') body;
                   digits = takeWhile is_ascii_digit (str_trim_start after)
               in (case parse_i32 digits of
                     None \<Rightarrow> None
                   | Some code \<Rightarrow>
                       (let msg_start =
                          (case str_find ''DB::Exception:'' body of
                             Some i \<Rightarrow> i + length ''DB::Exception:''
                           | None \<Rightarrow> idx)
                        in Some (code, clean_message (drop msg_start body)))))))"

section \<open>Lemmas\<close>

lemma code_name_unknown_iff: "clickhouse_code_name c = ''UNKNOWN'' \<longleftrightarrow> clickhouse_code_to_errno c = EIO"
  by (simp add: clickhouse_code_name_def clickhouse_code_to_errno_def)

lemma sublist_take: "sublist (take n xs) xs"
  by (rule prefix_imp_sublist) (rule take_is_prefix)

lemma clean_message_sublist: "sublist (clean_message s) s"
proof -
  let ?t = "str_trim s"
  let ?u = "case str_rfind '' (version'' ?t of Some i \<Rightarrow> take i ?t | None \<Rightarrow> ?t"
  have "sublist (clean_message s) (str_trim_end_char (CHR ''.'') ?u)"
    by (simp add: clean_message_def Let_def sublist_str_trim)
  also have "sublist (str_trim_end_char (CHR ''.'') ?u) ?u"
    by (rule prefix_imp_sublist) (rule str_trim_end_char_prefix)
  also have "sublist ?u ?t"
    by (auto split: option.splits simp: sublist_take)
  also have "sublist ?t s"
    by (rule sublist_str_trim)
  finally show ?thesis .
qed

lemma clean_message_trimmed: "trimmed (clean_message s)"
  by (simp add: clean_message_def Let_def trimmed_str_trim)

lemma str_trim_start_space: "str_trim_start (CHR '' '' # s) = str_trim_start s"
  by (subst str_trim_start.simps) (simp add: ws1_def byte_of_def)

lemma clean_message_space: "clean_message (CHR '' '' # s) = clean_message s"
  by (simp add: clean_message_def str_trim_def str_trim_start_space)

lemma digit_not_ws: "is_ascii_digit c \<Longrightarrow> ws_len (c # s) = 0"
  by (auto simp: is_ascii_digit_def ws1_def ws2_def ws3_def split: list.splits)

lemma str_trim_start_digit: "is_ascii_digit c \<Longrightarrow> str_trim_start (c # s) = c # s"
  by (subst str_trim_start.simps) (simp only: digit_not_ws if_True simp_thms)

lemma str_trim_start_show_nat: "str_trim_start (show_nat n @ s) = show_nat n @ s"
  using show_nat_digits [of n] by (cases "show_nat n") (auto simp: str_trim_start_digit)

text \<open>The first occurrence of a pattern after text without its first character.\<close>

lemma str_find_skip:
  "c \<notin> set p \<Longrightarrow> str_find (c # pat) (p @ c # pat @ s) = Some (length p)"
  by (induction p) auto

lemma digit_not_D: "is_ascii_digit c \<Longrightarrow> c \<noteq> CHR ''D''"
  by (auto simp: is_ascii_digit_def byte_of_def)

lemma parse_clickhouse_error_header:
  assumes "parse_i32 (str_trim h) = Some code"
  shows "parse_clickhouse_error (Some h) body = Some (code, clean_message body)"
  by (simp add: parse_clickhouse_error_def assms)

text \<open>The canonical text form that the server sends for an exception.\<close>

definition exception_text :: "nat \<Rightarrow> string \<Rightarrow> string" where
  "exception_text n msg = ''Code: '' @ show_nat n @ ''. DB::Exception: '' @ msg"

lemma find_exception_marker:
  "str_find ''DB::Exception:'' (exception_text n msg) = Some (8 + length (show_nat n))"
proof -
  let ?p = "''Code: '' @ show_nat n @ ''. ''"
  have "CHR ''D'' \<notin> set ?p"
    using show_nat_digits [of n] digit_not_D by (auto simp: list_all_iff)
  then have "str_find (CHR ''D'' # ''B::Exception:'')
      (?p @ CHR ''D'' # ''B::Exception:'' @ CHR '' '' # msg) = Some (length ?p)"
    by (rule str_find_skip)
  then show ?thesis by (simp add: exception_text_def)
qed

lemma parse_clickhouse_error_body:
  assumes n: "n < 2 ^ 31"
    and hdr: "\<And>h. header_code = Some h \<Longrightarrow> parse_i32 (str_trim h) = None"
  shows "parse_clickhouse_error header_code (exception_text n msg) = Some (int n, clean_message msg)"
proof -
  let ?body = "exception_text n msg"
  have idx: "str_find ''Code:'' ?body = Some 0"
    by (rule str_find_prefix) (simp add: exception_text_def)
  have "str_trim_start (drop (0 + length ''Code:'') ?body) = show_nat n @ ''. DB::Exception: '' @ msg"
    by (simp add: exception_text_def str_trim_start_space str_trim_start_show_nat)
  then have digits: "takeWhile is_ascii_digit (str_trim_start (drop (0 + length ''Code:'') ?body)) = show_nat n"
    by (simp add: takeWhile_append_stop show_nat_digits is_ascii_digit_def byte_of_def)
  have msg: "drop (8 + length (show_nat n) + length ''DB::Exception:'') ?body = CHR '' '' # msg"
  proof -
    let ?p = "''Code: '' @ show_nat n @ ''. DB::Exception:''"
    have "?body = ?p @ CHR '' '' # msg" and "length ?p = 8 + length (show_nat n) + length ''DB::Exception:''"
      by (simp_all add: exception_text_def)
    then show ?thesis by (metis append_eq_conv_conj)
  qed
  have none: "(case header_code of Some s \<Rightarrow> parse_i32 (str_trim s) | None \<Rightarrow> None) = None"
    using hdr by (cases header_code) auto
  show ?thesis
    unfolding parse_clickhouse_error_def
    by (simp only: none idx digits msg find_exception_marker parse_i32_show_nat [OF n]
        clean_message_space option.case Let_def)
qed

lemma clean_message_plain:
  assumes "msg \<noteq> []" and "printable (hd msg)" and "printable (last msg)"
    and "last msg \<noteq> CHR ''.''" and "\<not> sublist '' (version'' msg"
  shows "clean_message msg = msg"
proof -
  have "str_trim msg = msg" using assms by (simp add: printable_trimmed str_trim_id)
  then show ?thesis
    using assms by (simp add: clean_message_def str_rfind_None [THEN iffD2] str_trim_end_char_id)
qed

lemma clean_message_dot:
  assumes "msg \<noteq> []" and "printable (hd msg)" and "printable (last msg)"
    and "last msg \<noteq> CHR ''.''" and "\<not> sublist '' (version'' msg"
  shows "clean_message (msg @ ''.'') = msg"
proof -
  have "printable (CHR ''.'')" by (simp add: printable_def byte_of_def)
  then have "str_trim (msg @ ''.'') = msg @ ''.''"
    using assms by (intro str_trim_id printable_trimmed) simp_all
  moreover have "str_rfind '' (version'' (msg @ ''.'') = None"
    using assms(5) by (auto simp: str_rfind_None sublist_append suffix_def Cons_eq_append_conv sublist_Cons_right prefix_def)
  ultimately show ?thesis
    using assms by (simp add: clean_message_def str_trim_end_char_snoc str_trim_end_char_id printable_trimmed str_trim_id)
qed

lemma clean_message_version:
  assumes "msg \<noteq> []" and "printable (hd msg)" and "printable (last msg)"
    and "last msg \<noteq> CHR ''.''" and "\<not> sublist ''(version'' v"
  shows "clean_message (msg @ ''. (version '' @ v @ '')'') = msg"
proof -
  let ?s = "msg @ ''. (version '' @ v @ '')''"
  have "printable (CHR '')'')" by (simp add: printable_def byte_of_def)
  then have "str_trim ?s = ?s"
    using assms by (intro str_trim_id printable_trimmed) simp_all
  moreover have "str_rfind '' (version'' ?s = Some (length (msg @ ''.'') + 0)"
  proof -
    have tail: "\<not> prefix ''(version'' (v @ '')'')" "\<not> sublist '' (version'' (v @ '')'')"
    proof -
      have snoc: "\<not> sublist ''(version'' (v @ '')'')"
      proof
        assume "sublist ''(version'' (v @ '')'')"
        then have "sublist ''(version'' v \<or> suffix ''(version'' (v @ '')'')"
          by (auto simp: sublist_append suffix_def Cons_eq_append_conv sublist_Cons_right prefix_def)
        then show False using assms(5) by (auto simp: suffix_def)
      qed
      then show "\<not> prefix ''(version'' (v @ '')'')" using prefix_imp_sublist by blast
      have "sublist ''(version'' '' (version''" by (simp add: sublist_Cons_right)
      then show "\<not> sublist '' (version'' (v @ '')'')" using snoc sublist_order.order_trans by blast
    qed
    then have "str_rfind '' (version'' (''(version '' @ v @ '')'') = None"
      unfolding str_rfind_None by (simp add: sublist_Cons_right)
    then have "str_rfind '' (version'' ('' (version '' @ v @ '')'') = Some 0" by simp
    from str_rfind_append [OF this, of "msg @ ''.''"] show ?thesis by simp
  qed
  ultimately have "clean_message ?s = str_trim (str_trim_end_char (CHR ''.'') (msg @ ''.''))"
    by (simp add: clean_message_def)
  also have "\<dots> = msg"
    using assms by (simp add: str_trim_end_char_snoc str_trim_end_char_id printable_trimmed str_trim_id)
  finally show ?thesis .
qed

lemma parse_clickhouse_error_negative:
  assumes "\<And>h. header_code = Some h \<Longrightarrow> parse_i32 (str_trim h) = None"
  shows "parse_clickhouse_error header_code (''Code: -'' @ s) = None"
proof -
  have "(case header_code of Some s \<Rightarrow> parse_i32 (str_trim s) | None \<Rightarrow> None) = None"
    using assms by (cases header_code) auto
  moreover have "str_find ''Code:'' (''Code: -'' @ s) = Some 0" by (rule str_find_prefix) simp
  moreover have "str_trim_start (CHR ''-'' # s) = CHR ''-'' # s"
    by (subst str_trim_start.simps) (simp add: ws1_def ws2_def ws3_def byte_of_def split: list.splits)
  ultimately show ?thesis
    unfolding parse_clickhouse_error_def
    by (simp add: str_trim_start_space is_ascii_digit_def byte_of_def parse_i32_def)
qed

lemma parse_clickhouse_error_none:
  assumes "\<And>h. header_code = Some h \<Longrightarrow> parse_i32 (str_trim h) = None" and "\<not> sublist ''Code:'' body"
  shows "parse_clickhouse_error header_code body = None"
proof -
  have "str_find ''Code:'' body = None"
  proof (cases "str_find ''Code:'' body")
    case (Some i)
    then have "sublist ''Code:'' (drop i body)" using str_find_Some prefix_imp_sublist by blast
    moreover have "sublist (drop i body) body" by (rule suffix_imp_sublist) (rule suffix_drop)
    ultimately show ?thesis using assms(2) sublist_order.order_trans by blast
  qed
  then show ?thesis using assms(1) by (auto simp: parse_clickhouse_error_def split: option.splits)
qed

end
