(* ===== verification/Resolver.thy ===== *)
theory Resolver
  imports Errors RustPath
begin

text \<open>
  \<open>src/resolver.rs\<close>: the syntactic mapping from a path to a query plan.  The plan's inverse
  \<open>plan_path\<close> writes the path of a plan, and the lemmas show that \<open>resolve\<close> accepts exactly the
  paths of well-formed plans, so that what reaches a SQL builder is always a valid identifier.
\<close>

section \<open>Plans\<close>

datatype plan_kind =
    Root
  | DbNamespace
  | ListTables
  | ListPartitions
  | DescribeTable
  | Readme
  | StreamAll
  | StreamPartition string

record query_plan =
  p_kind :: plan_kind
  p_db :: "string option"
  p_table :: "string option"

fun is_dir :: "query_plan \<Rightarrow> bool" where
  "is_dir p = (case p_kind p of
     Root \<Rightarrow> True | DbNamespace \<Rightarrow> True | ListTables \<Rightarrow> True | ListPartitions \<Rightarrow> True | _ \<Rightarrow> False)"

fun is_special_file :: "query_plan \<Rightarrow> bool" where
  "is_special_file p = (case p_kind p of DescribeTable \<Rightarrow> True | Readme \<Rightarrow> True | _ \<Rightarrow> False)"

fun is_stream_file :: "query_plan \<Rightarrow> bool" where
  "is_stream_file p = (case p_kind p of StreamAll \<Rightarrow> True | StreamPartition _ \<Rightarrow> True | _ \<Rightarrow> False)"

section \<open>Identifiers\<close>

definition valid_identifier :: "string \<Rightarrow> bool" where
  "valid_identifier s \<longleftrightarrow>
     s \<noteq> [] \<and> length s \<le> 192
   \<and> list_all (\<lambda>c. is_ascii_alphanumeric c \<or> c = CHR ''_'' \<or> c = CHR ''-'' \<or> c = CHR ''.'') s"

definition valid_db_or_table :: "string \<Rightarrow> bool" where
  "valid_db_or_table s \<longleftrightarrow>
     s \<noteq> [] \<and> length s \<le> 192 \<and> \<not> prefix ''.'' s
   \<and> list_all (\<lambda>c. is_ascii_alphanumeric c \<or> c = CHR ''_'') s"

section \<open>Resolution\<close>

text \<open>The normal components that are valid UTF-8; every other component is dropped here.\<close>

definition path_comps :: "string \<Rightarrow> string list" where
  "path_comps path =
     List.map_filter (\<lambda>c. case c of Normal s \<Rightarrow> to_str s | _ \<Rightarrow> None) (components path)"

definition mk_plan :: "plan_kind \<Rightarrow> string option \<Rightarrow> string option \<Rightarrow> query_plan" where
  "mk_plan k d t = \<lparr>p_kind = k, p_db = d, p_table = t\<rparr>"

definition resolve_leaf :: "string \<Rightarrow> string \<Rightarrow> string \<Rightarrow> clickfs_error + query_plan" where
  "resolve_leaf d t leaf =
     (if leaf = ''.schema'' then Ok (mk_plan DescribeTable (Some d) (Some t))
      else if leaf = ''README.md'' then Ok (mk_plan Readme (Some d) (Some t))
      else if leaf = ''all.tsv'' then Ok (mk_plan StreamAll (Some d) (Some t))
      else if suffix ''.tsv'' leaf then
        (let part = take (length leaf - 4) leaf
         in if \<not> valid_identifier part then Err (InvalidIdentifier part)
            else Ok (mk_plan (StreamPartition part) (Some d) (Some t)))
      else Err NotFound)"

fun resolve_comps :: "string list \<Rightarrow> clickfs_error + query_plan" where
  "resolve_comps [] = Ok (mk_plan Root None None)"
| "resolve_comps [a] =
     (if a = ''db'' then Ok (mk_plan DbNamespace None None) else Err NotFound)"
| "resolve_comps [a, d] =
     (if a = ''db'' then
        (if \<not> valid_db_or_table d then Err (InvalidIdentifier d)
         else Ok (mk_plan ListTables (Some d) None))
      else Err NotFound)"
| "resolve_comps [a, d, t] =
     (if a = ''db'' then
        (if \<not> valid_db_or_table d \<or> \<not> valid_db_or_table t
         then Err (InvalidIdentifier (d @ ''.'' @ t))
         else Ok (mk_plan ListPartitions (Some d) (Some t)))
      else Err NotFound)"
| "resolve_comps [a, d, t, leaf] =
     (if a = ''db'' then
        (if \<not> valid_db_or_table d \<or> \<not> valid_db_or_table t
         then Err (InvalidIdentifier (d @ ''.'' @ t))
         else resolve_leaf d t leaf)
      else Err NotFound)"
| "resolve_comps _ = Err NotFound"

definition resolve :: "string \<Rightarrow> clickfs_error + query_plan" where
  "resolve path =
     (if ParentDir \<in> set (components path) then Err NotFound
      else resolve_comps (path_comps path))"

section \<open>Well-formed plans and their paths\<close>

definition plan_wf :: "query_plan \<Rightarrow> bool" where
  "plan_wf p \<longleftrightarrow>
     (case p_kind p of
        Root \<Rightarrow> p_db p = None \<and> p_table p = None
      | DbNamespace \<Rightarrow> p_db p = None \<and> p_table p = None
      | ListTables \<Rightarrow> (\<exists>d. p_db p = Some d \<and> valid_db_or_table d) \<and> p_table p = None
      | k \<Rightarrow> (\<exists>d. p_db p = Some d \<and> valid_db_or_table d)
           \<and> (\<exists>t. p_table p = Some t \<and> valid_db_or_table t)
           \<and> (case k of StreamPartition s \<Rightarrow> valid_identifier s \<and> s \<noteq> ''all'' | _ \<Rightarrow> True))"

definition plan_names :: "query_plan \<Rightarrow> string list" where
  "plan_names p =
     (let base = [''db'', the (p_db p), the (p_table p)] in
      case p_kind p of
        Root \<Rightarrow> []
      | DbNamespace \<Rightarrow> [''db'']
      | ListTables \<Rightarrow> [''db'', the (p_db p)]
      | ListPartitions \<Rightarrow> base
      | DescribeTable \<Rightarrow> base @ [''.schema'']
      | Readme \<Rightarrow> base @ [''README.md'']
      | StreamAll \<Rightarrow> base @ [''all.tsv'']
      | StreamPartition s \<Rightarrow> base @ [s @ ''.tsv''])"

definition plan_path :: "query_plan \<Rightarrow> string" where
  "plan_path p = ''/'' @ str_join ''/'' (plan_names p)"

section \<open>Lemmas\<close>

lemma components_absolute:
  assumes "list_all plain_name ns"
  shows "components (''/'' @ str_join ''/'' ns) = RootDir # map Normal ns"
proof (cases "ns = []")
  case False
  have "list_all (\<lambda>p. CHR ''/'' \<notin> set p) ns"
    using assms by (auto simp: list_all_iff plain_name_def)
  with False have "str_split (CHR ''/'') (str_join ''/'' ns) = ns"
    by (simp add: str_split_join)
  moreover have "concat (map piece_components ns) = map Normal ns"
    using assms by (induction ns) (simp_all add: piece_components_plain)
  ultimately show ?thesis by (simp add: components_def)
qed simp

lemma path_comps_absolute:
  assumes "list_all plain_name ns" and "list_all utf8_valid ns"
  shows "path_comps (''/'' @ str_join ''/'' ns) = ns"
proof -
  have "List.map_filter (\<lambda>c. case c of Normal s \<Rightarrow> to_str s | _ \<Rightarrow> None) (map Normal ns) = ns"
    using assms(2) by (induction ns) (simp_all add: to_str_def)
  then show ?thesis
    unfolding path_comps_def components_absolute [OF assms(1)] by simp
qed

lemma resolve_absolute:
  assumes "list_all plain_name ns" and "list_all utf8_valid ns"
  shows "resolve (''/'' @ str_join ''/'' ns) = resolve_comps ns"
  unfolding resolve_def path_comps_absolute [OF assms] components_absolute [OF assms(1)]
  by auto

lemma alnum_not_slash: "is_ascii_alphanumeric c \<Longrightarrow> c \<noteq> CHR ''/''"
  by (auto simp: is_ascii_alphanumeric_def is_ascii_digit_def byte_of_def)

lemma ident_char_bytes:
  assumes "is_ascii_alphanumeric c \<or> c = CHR ''_'' \<or> c = CHR ''-'' \<or> c = CHR ''.''"
  shows "byte_of c < 0x80 \<and> c \<noteq> CHR ''/''"
  using assms
proof (elim disjE)
  assume "is_ascii_alphanumeric c"
  then show ?thesis using alnum_ascii alnum_not_slash by blast
qed (simp_all add: byte_of_def)

lemma valid_identifier_bytes:
  assumes "valid_identifier s"
  shows "list_all (\<lambda>c. byte_of c < 0x80 \<and> c \<noteq> CHR ''/'') s"
proof -
  have "list_all (\<lambda>c. is_ascii_alphanumeric c \<or> c = CHR ''_'' \<or> c = CHR ''-'' \<or> c = CHR ''.'') s"
    using assms by (simp only: valid_identifier_def)
  then show ?thesis by (rule list.pred_mono_strong) (rule ident_char_bytes)
qed

lemma valid_db_identifier: "valid_db_or_table s \<Longrightarrow> valid_identifier s"
  by (auto simp: valid_db_or_table_def valid_identifier_def list_all_iff)

lemma valid_identifier_ascii: "valid_identifier s \<Longrightarrow> list_all (\<lambda>c. byte_of c < 0x80) s"
  using valid_identifier_bytes [of s] by (simp add: list_all_iff)

lemma valid_db_plain: "valid_db_or_table s \<Longrightarrow> plain_name s"
proof -
  assume s: "valid_db_or_table s"
  then have "CHR ''/'' \<notin> set s"
    using valid_identifier_bytes [OF valid_db_identifier] by (fastforce simp: list_all_iff)
  moreover have "s \<noteq> []" and "s \<noteq> ''.''" and "s \<noteq> ''..''"
    using s unfolding valid_db_or_table_def by (simp, force, force)
  ultimately show ?thesis by (simp add: plain_name_def)
qed

lemma valid_db_utf8: "valid_db_or_table s \<Longrightarrow> utf8_valid s"
  by (simp add: ascii_utf8_valid valid_identifier_ascii valid_db_identifier)

lemma suffix_tsv_name: "suffix ''.tsv'' (s @ ''.tsv'')"
  by (simp add: suffix_def)

lemma part_file_plain: "valid_identifier s \<Longrightarrow> plain_name (s @ ''.tsv'')"
  using valid_identifier_bytes [of s]
  by (cases s) (auto simp: plain_name_def list_all_iff)

lemma part_file_utf8: "valid_identifier s \<Longrightarrow> utf8_valid (s @ ''.tsv'')"
  using valid_identifier_ascii [of s]
  by (intro ascii_utf8_valid) (simp add: list_all_iff byte_of_def)

lemma part_file_not_special:
  "s @ ''.tsv'' \<noteq> ''.schema''" "s @ ''.tsv'' \<noteq> ''README.md''"
  "s @ ''.tsv'' = ''all.tsv'' \<longleftrightarrow> s = ''all''"
proof -
  have "last (s @ ''.tsv'') = CHR ''v''" by simp
  then show "s @ ''.tsv'' \<noteq> ''.schema''" "s @ ''.tsv'' \<noteq> ''README.md''" by force+
  have "''all.tsv'' = ''all'' @ ''.tsv''" by simp
  then show "s @ ''.tsv'' = ''all.tsv'' \<longleftrightarrow> s = ''all''"
    by (metis append_same_eq)
qed

lemma resolve_leaf_partition:
  "resolve_leaf d t (s @ ''.tsv'') =
     (if s = ''all'' then Ok (mk_plan StreamAll (Some d) (Some t))
      else if valid_identifier s then Ok (mk_plan (StreamPartition s) (Some d) (Some t))
      else Err (InvalidIdentifier s))"
  by (simp add: resolve_leaf_def part_file_not_special suffix_tsv_name)

lemma plan_eqI:
  "p_kind p = k \<Longrightarrow> p_db p = d \<Longrightarrow> p_table p = t \<Longrightarrow> p = mk_plan k d t"
  by (cases p) (simp add: mk_plan_def)

lemma mk_plan_sel [simp]:
  "p_kind (mk_plan k d t) = k" "p_db (mk_plan k d t) = d" "p_table (mk_plan k d t) = t"
  by (simp_all add: mk_plan_def)

lemma plan_names_plain: "plan_wf p \<Longrightarrow> list_all plain_name (plan_names p)"
  by (auto simp: plan_wf_def plan_names_def plain_name_def [of "''db''"]
      plain_name_def [of "''.schema''"] plain_name_def [of "''README.md''"]
      plain_name_def [of "''all.tsv''"] valid_db_plain part_file_plain
      split: plan_kind.splits)

lemma lit_utf8: "utf8_valid ''db''" "utf8_valid ''.schema''" "utf8_valid ''README.md''"
  "utf8_valid ''all.tsv''"
  by (intro ascii_utf8_valid, simp add: byte_of_def)+

lemma plan_names_utf8: "plan_wf p \<Longrightarrow> list_all utf8_valid (plan_names p)"
  by (auto simp: plan_wf_def plan_names_def lit_utf8 valid_db_utf8 part_file_utf8
      split: plan_kind.splits simp del: utf8_valid.simps)

lemma resolve_comps_plan_names:
  assumes "plan_wf p"
  shows "resolve_comps (plan_names p) = Ok p"
proof (cases "p_kind p")
  case (StreamPartition s)
  with assms show ?thesis
    by (auto simp: plan_wf_def plan_names_def resolve_leaf_partition intro!: plan_eqI [symmetric])
qed (use assms in \<open>auto simp: plan_wf_def plan_names_def resolve_leaf_def
      intro!: plan_eqI [symmetric]\<close>)

lemma resolve_plan_path: "plan_wf p \<Longrightarrow> resolve (plan_path p) = Ok p"
  by (simp only: plan_path_def resolve_absolute plan_names_plain plan_names_utf8
      resolve_comps_plan_names)

lemma suffix_tsv_split: "suffix ''.tsv'' leaf \<Longrightarrow> leaf = take (length leaf - 4) leaf @ ''.tsv''"
  by (auto simp: suffix_def)

lemma resolve_leaf_names:
  assumes "resolve_leaf d t leaf = Ok p" and "valid_db_or_table d" and "valid_db_or_table t"
  shows "plan_wf p \<and> plan_names p = [''db'', d, t, leaf]"
proof (cases "leaf \<in> {''.schema'', ''README.md'', ''all.tsv''}")
  case True
  with assms show ?thesis
    by (auto simp: resolve_leaf_def plan_wf_def plan_names_def)
next
  case False
  with assms(1) have suf: "suffix ''.tsv'' leaf"
    by (auto simp: resolve_leaf_def split: if_splits)
  obtain s where leaf: "leaf = s @ ''.tsv''"
    using suffix_tsv_split [OF suf] by metis
  with False have "s \<noteq> ''all''" by auto
  with assms leaf show ?thesis
    by (auto simp: resolve_leaf_partition plan_wf_def plan_names_def split: if_splits)
qed

lemma resolve_comps_wf:
  "resolve_comps ns = Ok p \<Longrightarrow> plan_wf p \<and> plan_names p = ns"
  by (induction ns rule: resolve_comps.induct)
    (auto simp: plan_wf_def plan_names_def resolve_leaf_names split: if_splits
      dest: resolve_leaf_names)

lemma resolve_wf: "resolve path = Ok p \<Longrightarrow> plan_wf p"
  by (auto simp: resolve_def resolve_comps_wf split: if_splits)

lemma resolve_names: "resolve path = Ok p \<Longrightarrow> path_comps path = plan_names p"
  by (auto simp: resolve_def resolve_comps_wf split: if_splits)

text \<open>The components of an absolute path: the root, then names and parents.\<close>

lemma components_absolute_cases:
  assumes "prefix ''/'' path" and "ParentDir \<notin> set (components path)"
  obtains ns where "components path = RootDir # map Normal ns"
proof -
  let ?cs = "concat (map piece_components (str_split (CHR ''/'') path))"
  have cs: "components path = RootDir # ?cs"
    using assms(1) by (simp add: components_def)
  have "\<exists>ns. ?cs = map Normal ns"
  proof -
    have "\<forall>c \<in> set ?cs. \<exists>n. c = Normal n"
      using assms(2) cs by (auto simp: piece_components_def split: if_splits)
    then show ?thesis
      by (metis (no_types, opaque_lifting) ex_map_conv)
  qed
  with cs that show ?thesis by auto
qed

lemma resolve_path_eq:
  assumes res: "resolve path = Ok p" and abs: "prefix ''/'' path"
    and utf8: "\<And>n. Normal n \<in> set (components path) \<Longrightarrow> utf8_valid n"
  shows "path_eq path (plan_path p)"
proof -
  have "ParentDir \<notin> set (components path)"
    using res by (auto simp: resolve_def split: if_splits)
  then obtain ns where ns: "components path = RootDir # map Normal ns"
    using components_absolute_cases [OF abs] by blast
  have "list_all utf8_valid ns" using utf8 ns by (auto simp: list_all_iff)
  then have "List.map_filter (\<lambda>c. case c of Normal s \<Rightarrow> to_str s | _ \<Rightarrow> None) (map Normal ns) = ns"
    by (induction ns) (simp_all add: to_str_def)
  then have "path_comps path = ns" by (simp add: path_comps_def ns)
  with resolve_names [OF res] have "plan_names p = ns" by simp
  then show ?thesis
    using components_absolute [OF plan_names_plain [OF resolve_wf [OF res]]] ns
    by (simp add: path_eq_def plan_path_def)
qed

lemma resolve_parent: "ParentDir \<in> set (components path) \<Longrightarrow> resolve path = Err NotFound"
  by (simp add: resolve_def)

lemma resolve_path_cong: "path_eq p q \<Longrightarrow> resolve p = resolve q"
  by (simp add: resolve_def path_comps_def path_eq_def)

text \<open>Every failure of the resolver is reported as a missing file.\<close>

lemma resolve_comps_err: "resolve_comps ns = Err err \<Longrightarrow> to_errno err = ENOENT"
  by (induction ns rule: resolve_comps.induct) (auto simp: resolve_leaf_def Let_def split: if_splits)

lemma resolve_err: "resolve path = Err err \<Longrightarrow> to_errno err = ENOENT"
  by (auto simp: resolve_def resolve_comps_err split: if_splits)

end
