(* ===== verification/Sql.thy ===== *)
theory Sql
  imports RustStr
begin

text \<open>
  The SQL text that \<open>src/driver.rs\<close> builds: quoting of identifiers and string literals, and one
  builder per query.  A Rust string literal that ends a line with a backslash continues without
  the line break and its indentation.

  ClickHouse's lexer is not part of the program.  \<open>lex_quoted\<close> is its documented treatment of a
  quoted token: the quote character ends the token unless it is doubled, and a backslash takes the
  next character as an escape, of which \<open>\\\<close> and the two quote characters stand for themselves and
  the others are given by the parameter \<open>u\<close>.  The locale \<open>quoting\<close> is what a builder needs from a
  quoting function: the lexer reads the text back and stops at the right place.
\<close>

abbreviation SQUOTE :: char where "SQUOTE \<equiv> CHR 0x27"
abbreviation BTICK :: char where "BTICK \<equiv> CHR 0x60"
abbreviation BSLASH :: char where "BSLASH \<equiv> CHR 0x5C"
abbreviation COMMA :: char where "COMMA \<equiv> CHR 0x2C"

section \<open>Quoting\<close>

definition quote_ident :: "string \<Rightarrow> string" where
  "quote_ident s = [BTICK] @ str_replace_char BTICK [BTICK, BTICK] s @ [BTICK]"

definition quote_string :: "string \<Rightarrow> string" where
  "quote_string s =
     (let escaped = str_replace_char SQUOTE [BSLASH, SQUOTE]
                      (str_replace_char BSLASH [BSLASH, BSLASH] s)
      in [SQUOTE] @ escaped @ [SQUOTE])"

section \<open>Builders\<close>

definition sql_list_databases :: string where
  "sql_list_databases =
     ''SELECT name FROM system.databases '' @
     ''WHERE name NOT IN ('system','INFORMATION_SCHEMA','information_schema') '' @
     ''ORDER BY name FORMAT TabSeparated''"

definition sql_list_tables :: "string \<Rightarrow> string" where
  "sql_list_tables d =
     ''SELECT name FROM system.tables WHERE database = '' @ quote_string d @
     '' ORDER BY name FORMAT TabSeparated''"

definition sql_list_partitions :: "string \<Rightarrow> string \<Rightarrow> string" where
  "sql_list_partitions d t =
     ''SELECT DISTINCT partition_id FROM system.parts WHERE database = '' @ quote_string d @
     '' AND table = '' @ quote_string t @
     '' AND active ORDER BY partition_id FORMAT TabSeparated''"

definition sql_describe :: "string \<Rightarrow> string \<Rightarrow> string" where
  "sql_describe d t =
     ''SHOW CREATE TABLE '' @ quote_ident d @ ''.'' @ quote_ident t @ '' FORMAT TSVRaw''"

definition sql_stream_all :: "string \<Rightarrow> string \<Rightarrow> string" where
  "sql_stream_all d t =
     ''SELECT * FROM '' @ quote_ident d @ ''.'' @ quote_ident t @ '' FORMAT TabSeparatedWithNames''"

definition sql_stream_partition :: "string \<Rightarrow> string \<Rightarrow> string \<Rightarrow> string" where
  "sql_stream_partition d t part =
     ''SELECT * FROM '' @ quote_ident d @ ''.'' @ quote_ident t @
     '' WHERE _partition_id = '' @ quote_string part @ '' FORMAT TabSeparatedWithNames''"

definition sql_stats :: "string \<Rightarrow> string \<Rightarrow> string" where
  "sql_stats d t =
     ''SELECT sum(rows) AS rows, sum(bytes_on_disk) AS bytes_on_disk, count() AS parts, '' @
     ''uniqExact(partition) AS partitions, min(min_time) AS min_time, max(max_time) AS max_time '' @
     ''FROM system.parts WHERE database = '' @ quote_string d @ '' AND table = '' @ quote_string t @
     '' AND active FORMAT JSONEachRow''"

definition sql_table_pk :: "string \<Rightarrow> string \<Rightarrow> string" where
  "sql_table_pk d t =
     ''SELECT primary_key, sorting_key FROM system.tables WHERE database = '' @ quote_string d @
     '' AND name = '' @ quote_string t @ '' FORMAT JSONEachRow''"

definition sql_columns :: "string \<Rightarrow> string \<Rightarrow> string" where
  "sql_columns d t =
     ''SELECT name, type, comment FROM system.columns WHERE database = '' @ quote_string d @
     '' AND table = '' @ quote_string t @ '' ORDER BY position FORMAT JSONEachRow''"

definition order_clause :: "string \<Rightarrow> string" where
  "order_clause order_expr =
     (let trimmed = str_trim order_expr
      in if trimmed = [] \<or> trimmed = ''tuple()'' then trimmed @ '' DESC''
         else str_join '', '' (map (\<lambda>c. str_trim c @ '' DESC'') (str_split COMMA trimmed)))"

definition sql_select_tail ::
  "string \<Rightarrow> string \<Rightarrow> string \<Rightarrow> string option \<Rightarrow> u32 \<Rightarrow> string" where
  "sql_select_tail d t order_expr part_opt limit =
     (let where_clause =
            (case part_opt of
               Some part \<Rightarrow> '' WHERE _partition_id = '' @ quote_string part
             | None \<Rightarrow> '''')
      in ''SELECT * FROM '' @ quote_ident d @ ''.'' @ quote_ident t @ where_clause @
         '' ORDER BY '' @ order_clause order_expr @ '' LIMIT '' @ show_nat (unat limit) @
         '' FORMAT TabSeparatedWithNames'')"

text \<open>The two queries that \<open>src/readme.rs\<close> builds, and the \<open>KILL QUERY\<close> of \<open>kill_query\<close>.\<close>

definition sql_count :: "string \<Rightarrow> string \<Rightarrow> string" where
  "sql_count d t =
     ''SELECT count() FROM '' @ quote_ident d @ ''.'' @ quote_ident t @ '' FORMAT TabSeparated''"

definition sql_sample :: "string \<Rightarrow> string \<Rightarrow> string" where
  "sql_sample d t =
     ''SELECT * FROM '' @ quote_ident d @ ''.'' @ quote_ident t @ '' LIMIT 5 FORMAT JSONEachRow''"

definition sql_kill :: "string \<Rightarrow> string" where
  "sql_kill query_id = ''KILL QUERY WHERE query_id = '' @ quote_string query_id @ '' ASYNC''"

section \<open>Reading quoted tokens back\<close>

definition escape_value :: "(char \<Rightarrow> char) \<Rightarrow> char \<Rightarrow> char" where
  "escape_value u c = (if c = BSLASH \<or> c = SQUOTE \<or> c = BTICK then c else u c)"

fun lex_body :: "(char \<Rightarrow> char) \<Rightarrow> char \<Rightarrow> string \<Rightarrow> (string \<times> string) option" where
  "lex_body u q [] = None"
| "lex_body u q (c # s) =
     (if c = q then
        (case s of
           d # s' \<Rightarrow>
             if d = q then map_option (\<lambda>(x, r). (q # x, r)) (lex_body u q s') else Some ([], s)
         | [] \<Rightarrow> Some ([], []))
      else if c = BSLASH then
        (case s of
           [] \<Rightarrow> None
         | d # s' \<Rightarrow> map_option (\<lambda>(x, r). (escape_value u d # x, r)) (lex_body u q s'))
      else map_option (\<lambda>(x, r). (c # x, r)) (lex_body u q s))"

definition lex_quoted :: "(char \<Rightarrow> char) \<Rightarrow> char \<Rightarrow> string \<Rightarrow> (string \<times> string) option" where
  "lex_quoted u q s =
     (case s of c # r \<Rightarrow> if c = q then lex_body u q r else None | [] \<Rightarrow> None)"

locale quoting =
  fixes quote :: "string \<Rightarrow> string"
    and lex :: "string \<Rightarrow> (string \<times> string) option"
    and good :: "string \<Rightarrow> bool"
    and q :: char
  assumes lex_quote: "good s \<Longrightarrow> (rest = [] \<or> hd rest \<noteq> q) \<Longrightarrow> lex (quote s @ rest) = Some (s, rest)"
begin

lemma quote_inj:
  assumes "good s" and "good t" and "quote s = quote t"
  shows "s = t"
  using lex_quote [OF assms(1), of "[]"] lex_quote [OF assms(2), of "[]"] assms(3) by simp

lemma lex_two:
  assumes "good s" and "good t" and "sep \<noteq> []" and "hd sep \<noteq> q" and "rest = [] \<or> hd rest \<noteq> q"
  shows "\<exists>r. lex (quote s @ sep @ quote t @ rest) = Some (s, sep @ r) \<and> lex r = Some (t, rest)"
proof -
  have "lex (quote s @ (sep @ quote t @ rest)) = Some (s, sep @ quote t @ rest)"
    using assms by (intro lex_quote) (auto simp: hd_append)
  then show ?thesis using lex_quote [OF assms(2,5)] by blast
qed

end

lemma quote_string_Nil [simp]: "quote_string [] = [SQUOTE, SQUOTE]"
  by (simp add: quote_string_def)

lemma lex_body_end: "rest = [] \<or> hd rest \<noteq> q \<Longrightarrow> lex_body u q (q # rest) = Some ([], rest)"
  by (cases rest) auto

lemma lex_body_string:
  assumes "rest = [] \<or> hd rest \<noteq> SQUOTE"
  shows "lex_body u SQUOTE
      (str_replace_char SQUOTE [BSLASH, SQUOTE] (str_replace_char BSLASH [BSLASH, BSLASH] s)
       @ SQUOTE # rest) = Some (s, rest)"
  by (induction s) (use assms in \<open>auto simp: lex_body_end escape_value_def split: list.split\<close>)

lemma lex_body_ident:
  assumes "BSLASH \<notin> set s" and "rest = [] \<or> hd rest \<noteq> BTICK"
  shows "lex_body u BTICK (str_replace_char BTICK [BTICK, BTICK] s @ BTICK # rest) = Some (s, rest)"
  using assms(1) by (induction s) (use assms(2) in \<open>auto simp: lex_body_end split: list.split\<close>)

interpretation lit: quoting quote_string "lex_quoted u SQUOTE" "\<lambda>_. True" SQUOTE for u
  by unfold_locales (simp add: lex_quoted_def quote_string_def Let_def lex_body_string)

interpretation idn: quoting quote_ident "lex_quoted u BTICK" "\<lambda>s. BSLASH \<notin> set s" BTICK for u
  by unfold_locales (simp add: lex_quoted_def quote_ident_def lex_body_ident)

text \<open>
  A statement template, and the reader that matches a statement against it and returns the quoted
  values in order.  A value can only come back whole and in its place.
\<close>

datatype field = Lit string | Ident | Str

fun scan :: "(char \<Rightarrow> char) \<Rightarrow> field list \<Rightarrow> string \<Rightarrow> string list option" where
  "scan u [] s = (if s = [] then Some [] else None)"
| "scan u (Lit l # fs) s = (if prefix l s then scan u fs (drop (length l) s) else None)"
| "scan u (Ident # fs) s =
     (case lex_quoted u BTICK s of Some (x, r) \<Rightarrow> map_option (Cons x) (scan u fs r) | None \<Rightarrow> None)"
| "scan u (Str # fs) s =
     (case lex_quoted u SQUOTE s of Some (x, r) \<Rightarrow> map_option (Cons x) (scan u fs r) | None \<Rightarrow> None)"

lemmas lex_quotes = lit.lex_quote idn.lex_quote

definition stream_partition_template :: "field list" where
  "stream_partition_template =
     [Lit ''SELECT * FROM '', Ident, Lit ''.'', Ident, Lit '' WHERE _partition_id = '', Str,
      Lit '' FORMAT TabSeparatedWithNames'']"

definition stream_all_template :: "field list" where
  "stream_all_template =
     [Lit ''SELECT * FROM '', Ident, Lit ''.'', Ident, Lit '' FORMAT TabSeparatedWithNames'']"

definition describe_template :: "field list" where
  "describe_template = [Lit ''SHOW CREATE TABLE '', Ident, Lit ''.'', Ident, Lit '' FORMAT TSVRaw'']"

definition list_partitions_template :: "field list" where
  "list_partitions_template =
     [Lit ''SELECT DISTINCT partition_id FROM system.parts WHERE database = '', Str,
      Lit '' AND table = '', Str, Lit '' AND active ORDER BY partition_id FORMAT TabSeparated'']"

definition list_tables_template :: "field list" where
  "list_tables_template =
     [Lit ''SELECT name FROM system.tables WHERE database = '', Str,
      Lit '' ORDER BY name FORMAT TabSeparated'']"

definition stats_template :: "field list" where
  "stats_template =
     [Lit (''SELECT sum(rows) AS rows, sum(bytes_on_disk) AS bytes_on_disk, count() AS parts, '' @
           ''uniqExact(partition) AS partitions, min(min_time) AS min_time, max(max_time) AS max_time '' @
           ''FROM system.parts WHERE database = ''), Str,
      Lit '' AND table = '', Str, Lit '' AND active FORMAT JSONEachRow'']"

definition table_pk_template :: "field list" where
  "table_pk_template =
     [Lit ''SELECT primary_key, sorting_key FROM system.tables WHERE database = '', Str,
      Lit '' AND name = '', Str, Lit '' FORMAT JSONEachRow'']"

definition columns_template :: "field list" where
  "columns_template =
     [Lit ''SELECT name, type, comment FROM system.columns WHERE database = '', Str,
      Lit '' AND table = '', Str, Lit '' ORDER BY position FORMAT JSONEachRow'']"

definition count_template :: "field list" where
  "count_template = [Lit ''SELECT count() FROM '', Ident, Lit ''.'', Ident, Lit '' FORMAT TabSeparated'']"

definition sample_template :: "field list" where
  "sample_template = [Lit ''SELECT * FROM '', Ident, Lit ''.'', Ident, Lit '' LIMIT 5 FORMAT JSONEachRow'']"

text \<open>The tail query: its ORDER BY text comes from the server's answer and is not a quoted value.\<close>

definition tail_template :: "bool \<Rightarrow> string \<Rightarrow> nat \<Rightarrow> field list" where
  "tail_template partitioned order n =
     [Lit ''SELECT * FROM '', Ident, Lit ''.'', Ident]
     @ (if partitioned then [Lit '' WHERE _partition_id = '', Str] else [])
     @ [Lit ('' ORDER BY '' @ order @ '' LIMIT '' @ show_nat n @ '' FORMAT TabSeparatedWithNames'')]"

lemmas templates =
  stream_partition_template_def stream_all_template_def describe_template_def list_partitions_template_def
  list_tables_template_def stats_template_def table_pk_template_def columns_template_def
  count_template_def sample_template_def tail_template_def

text \<open>Reading a statement from its identifiers, and from its literals.\<close>

lemma scan_idents:
  assumes "BSLASH \<notin> set d" and "BSLASH \<notin> set t"
  shows "scan u stream_all_template (sql_stream_all d t) = Some [d, t]"
    and "scan u stream_partition_template (sql_stream_partition d t p) = Some [d, t, p]"
    and "scan u describe_template (sql_describe d t) = Some [d, t]"
    and "scan u count_template (sql_count d t) = Some [d, t]"
    and "scan u sample_template (sql_sample d t) = Some [d, t]"
  using assms
  by (simp_all add: templates lex_quotes sql_stream_all_def sql_stream_partition_def sql_describe_def
      sql_count_def sql_sample_def)

lemma scan_literals:
  "scan u list_tables_template (sql_list_tables d) = Some [d]"
  "scan u list_partitions_template (sql_list_partitions d t) = Some [d, t]"
  "scan u stats_template (sql_stats d t) = Some [d, t]"
  "scan u table_pk_template (sql_table_pk d t) = Some [d, t]"
  "scan u columns_template (sql_columns d t) = Some [d, t]"
  by (simp_all add: templates lex_quotes sql_list_tables_def sql_list_partitions_def sql_stats_def
      sql_table_pk_def sql_columns_def)

lemma scan_tail:
  assumes "BSLASH \<notin> set d" and "BSLASH \<notin> set t"
  shows "scan u (tail_template (part \<noteq> None) (order_clause key) (unat n)) (sql_select_tail d t key part n) =
    Some ([d, t] @ (case part of Some p \<Rightarrow> [p] | None \<Rightarrow> []))"
  using assms by (cases part) (simp_all add: templates lex_quotes sql_select_tail_def)

section \<open>The descending order clause\<close>

text \<open>A column: a text without a comma whose first and last characters are printable.\<close>

definition column_ok :: "string \<Rightarrow> bool" where
  "column_ok c \<longleftrightarrow> c \<noteq> [] \<and> COMMA \<notin> set c \<and> printable (hd c) \<and> printable (last c)"

lemma str_trim_space: "str_trim (CHR '' '' # s) = str_trim s"
proof -
  have "str_trim_start (CHR '' '' # s) = str_trim_start s"
    by (subst str_trim_start.simps) (simp add: ws1_def byte_of_def)
  then show ?thesis by (simp add: str_trim_def)
qed

lemma column_trim: "column_ok c \<Longrightarrow> str_trim c = c"
  by (simp add: column_ok_def printable_trimmed str_trim_id)

lemma split_comma_join:
  assumes "list_all column_ok (c # cs)"
  shows "str_split COMMA (str_join '', '' (c # cs)) = c # map (Cons (CHR '' '')) cs"
  using assms
proof (induction cs arbitrary: c)
  case Nil
  then show ?case by (simp add: column_ok_def str_split_absent)
next
  case (Cons d ds)
  have "str_split COMMA (CHR '' '' # str_join '', '' (d # ds)) = (CHR '' '' # d) # map (Cons (CHR '' '')) ds"
    using Cons.IH [of d] Cons.prems by simp
  with Cons.prems show ?case by (simp add: column_ok_def str_split_append)
qed

lemma hd_last_join:
  assumes "list_all column_ok cs" and "cs \<noteq> []"
  shows "str_join '', '' cs \<noteq> [] \<and> printable (hd (str_join '', '' cs))
       \<and> printable (last (str_join '', '' cs))"
  using assms
proof (induction cs)
  case (Cons c cs)
  then show ?case by (cases "cs = []") (auto simp: str_join_Cons column_ok_def)
qed simp

lemma order_clause_columns:
  assumes ok: "list_all column_ok cs" and ne: "cs \<noteq> []" and tup: "cs \<noteq> [''tuple()'']"
  shows "order_clause (str_join '', '' cs) = str_join '', '' (map (\<lambda>c. c @ '' DESC'') cs)"
proof -
  obtain c ds where cs: "cs = c # ds" using ne by (cases cs) auto
  let ?j = "str_join '', '' cs"
  have j: "?j \<noteq> []" "str_trim ?j = ?j"
    using hd_last_join [OF ok ne] by (simp_all add: printable_trimmed str_trim_id)
  have "?j \<noteq> ''tuple()''"
  proof (cases ds)
    case Nil
    then show ?thesis using tup cs by simp
  next
    case (Cons d ds')
    then have "COMMA \<in> set ?j" by (simp add: cs)
    then show ?thesis by auto
  qed
  moreover have "map (\<lambda>x. str_trim x @ '' DESC'') (str_split COMMA ?j) = map (\<lambda>x. x @ '' DESC'') cs"
    using ok unfolding cs split_comma_join [OF ok [unfolded cs]]
    by (induction ds) (simp_all add: column_trim str_trim_space)
  ultimately show ?thesis
    using j by (simp add: order_clause_def Let_def)
qed

end
