(* ===== verification/Driver.thy ===== *)
theory Driver
  imports Errors Sql
begin

text \<open>
  \<open>HttpDriver\<close> of \<open>src/driver.rs\<close>: construction, the settings appended to a statement, and the
  three kinds of request, with the classification of failures.

  The outside world (network, server, clock, random numbers) is a parameter: a state \<open>'w\<close> and the
  operations of \<open>env\<close>, each of which returns its result and the next state.  \<open>env_send\<close> stands for
  \<open>reqwest\<close>: it takes a whole request and returns a transport error or a response, of which the
  code reads the fields below.  A streamed body is the list of its chunks, the last of which may
  be an error.
\<close>

section \<open>Requests, responses and the outside world\<close>

record http_request =
  rq_url :: string
  rq_user :: string
  rq_password :: string
  rq_timeout :: "u64 option"
  rq_query :: "(string \<times> string) list"
  rq_body :: string

record http_response =
  rs_status :: u16
  rs_success :: bool
  rs_header :: "string \<Rightarrow> string option"
  rs_text :: "reqwest_error + string"
  rs_chunks :: "(reqwest_error + bytes) list"

record 'w env =
  env_send :: "http_request \<Rightarrow> 'w \<Rightarrow> (reqwest_error + http_response) \<times> 'w"
  env_now :: "'w \<Rightarrow> nat \<times> 'w"
  env_uuid :: "'w \<Rightarrow> string \<times> 'w"

section \<open>Configuration\<close>

record tls_config =
  insecure :: bool
  ca_bundle_pem :: "bytes option"

definition tls_default :: tls_config where
  "tls_default = \<lparr>insecure = False, ca_bundle_pem = None\<rparr>"

definition tls_validate :: "tls_config \<Rightarrow> string + unit" where
  "tls_validate c =
     (if insecure c \<and> ca_bundle_pem c \<noteq> None
      then Err ''--insecure and --ca-bundle are mutually exclusive''
      else Ok ())"

record compression_config =
  comp_enabled :: bool

definition compression_default :: compression_config where
  "compression_default = \<lparr>comp_enabled = True\<rparr>"

record tail_config =
  tail_enabled :: bool
  tail_rows :: u32

definition tail_default :: tail_config where
  "tail_default = \<lparr>tail_enabled = True, tail_rows = 10000\<rparr>"

text \<open>
  The options given to \<open>reqwest\<close>'s client builder, and its two fallible operations
  (\<open>Certificate::from_pem_bundle\<close> and \<open>build\<close>) as parameters of \<open>driver_new\<close>.
\<close>

record 'cert client_options =
  co_gzip :: bool
  co_accept_invalid_certs :: bool
  co_accept_invalid_hostnames :: bool
  co_roots :: "'cert list"

record 'client http_driver =
  base_url :: string
  user :: string
  password :: string
  client :: 'client
  query_timeout_secs :: u64
  max_result_bytes :: u64
  compression :: compression_config

definition driver_new ::
  "(bytes \<Rightarrow> string + 'cert list) \<Rightarrow> ('cert client_options \<Rightarrow> string + 'client) \<Rightarrow>
   string \<Rightarrow> string \<Rightarrow> string \<Rightarrow> u64 \<Rightarrow> u64 \<Rightarrow> tls_config \<Rightarrow> compression_config \<Rightarrow>
   clickfs_error + 'client http_driver" where
  "driver_new from_pem build url usr pwd timeout max_bytes tls cmp =
     (case tls_validate tls of
        Inl e \<Rightarrow> Err (Query (Transport e))
      | Inr _ \<Rightarrow>
         (case (case ca_bundle_pem tls of Some pem \<Rightarrow> from_pem pem | None \<Rightarrow> Ok []) of
            Inl e \<Rightarrow> Err (Query (Transport (''ca-bundle: '' @ e)))
          | Inr certs \<Rightarrow>
             (case build \<lparr>co_gzip = comp_enabled cmp, co_accept_invalid_certs = insecure tls,
                          co_accept_invalid_hostnames = insecure tls, co_roots = certs\<rparr> of
                Inl e \<Rightarrow> Err (Query (Transport e))
              | Inr c \<Rightarrow> Ok \<lparr>base_url = url, user = usr, password = pwd, client = c,
                            query_timeout_secs = timeout, max_result_bytes = max_bytes,
                            compression = cmp\<rparr>)))"

section \<open>Requests\<close>

definition append_settings :: "'client http_driver \<Rightarrow> string \<Rightarrow> bool \<Rightarrow> string" where
  "append_settings d sql streaming =
     (let compression_setting =
            (if comp_enabled (compression d) then '', enable_http_compression=1'' else '''')
      in if streaming then
           sql @ '' SETTINGS max_execution_time='' @ show_nat (unat (query_timeout_secs d)) @
           '', max_result_bytes='' @ show_nat (unat (max_result_bytes d)) @
           '', readonly=2'' @ compression_setting
         else
           sql @ '' SETTINGS max_execution_time='' @ show_nat (unat (query_timeout_secs d)) @
           '', readonly=2'' @ compression_setting)"

definition classify_error :: "u16 \<Rightarrow> string option \<Rightarrow> string \<Rightarrow> query_error" where
  "classify_error status header_code body =
     (case parse_clickhouse_error header_code body of
        Some (code, message) \<Rightarrow> ClickHouse code (clickhouse_code_name code) message
      | None \<Rightarrow>
          if status = 401 \<or> status = 403 then Auth else Server status body)"

definition exception_header :: string where
  "exception_header = ''X-ClickHouse-Exception-Code''"

definition base_request :: "'client http_driver \<Rightarrow> string \<Rightarrow> http_request" where
  "base_request d body =
     \<lparr>rq_url = base_url d, rq_user = user d, rq_password = password d, rq_timeout = None,
      rq_query = [], rq_body = body\<rparr>"

text \<open>
  The client-side timeout is the query timeout plus five seconds, in \<open>u64\<close> arithmetic (wrapping,
  as the release profile compiles it).
\<close>

definition text_request :: "'client http_driver \<Rightarrow> string \<Rightarrow> http_request" where
  "text_request d sql =
     (base_request d (append_settings d sql False))\<lparr>rq_timeout := Some (query_timeout_secs d + 5)\<rparr>"

definition query_text ::
  "'w env \<Rightarrow> 'client http_driver \<Rightarrow> string \<Rightarrow> 'w \<Rightarrow> (query_error + string) \<times> 'w" where
  "query_text e d sql w =
     (case env_send e (text_request d sql) w of
        (Inl err, w') \<Rightarrow> (Err (query_error_from err), w')
      | (Inr resp, w') \<Rightarrow>
         ((case rs_text resp of
             Inl err \<Rightarrow> Err (query_error_from err)
           | Inr body \<Rightarrow>
               if \<not> rs_success resp
               then Err (classify_error (rs_status resp) (rs_header resp exception_header) body)
               else Ok body), w'))"

definition stream_request :: "'client http_driver \<Rightarrow> string \<Rightarrow> string option \<Rightarrow> http_request" where
  "stream_request d sql query_id =
     (let req = base_request d (append_settings d sql True)
      in case query_id of Some i \<Rightarrow> req\<lparr>rq_query := [(''query_id'', i)]\<rparr> | None \<Rightarrow> req)"

definition stream_item :: "reqwest_error + bytes \<Rightarrow> query_error + bytes" where
  "stream_item r = (case r of Inl e \<Rightarrow> Err (Stream (re_text e)) | Inr b \<Rightarrow> Ok b)"

definition query_stream_with_id ::
  "'w env \<Rightarrow> 'client http_driver \<Rightarrow> string \<Rightarrow> string option \<Rightarrow> 'w \<Rightarrow>
   (query_error + (query_error + bytes) list) \<times> 'w" where
  "query_stream_with_id e d sql query_id w =
     (case env_send e (stream_request d sql query_id) w of
        (Inl err, w') \<Rightarrow> (Err (query_error_from err), w')
      | (Inr resp, w') \<Rightarrow>
         (if \<not> rs_success resp then
            (let body = (case rs_text resp of Inr b \<Rightarrow> b | Inl _ \<Rightarrow> '''')
             in (Err (classify_error (rs_status resp) (rs_header resp exception_header) body), w'))
          else (Ok (map stream_item (rs_chunks resp)), w')))"

text \<open>\<open>kill_query\<close> sends its statement without settings and ignores the outcome.\<close>

definition kill_request :: "'client http_driver \<Rightarrow> string \<Rightarrow> http_request" where
  "kill_request d query_id = (base_request d (sql_kill query_id))\<lparr>rq_timeout := Some 5\<rparr>"

definition kill_query :: "'w env \<Rightarrow> 'client http_driver \<Rightarrow> string \<Rightarrow> 'w \<Rightarrow> 'w" where
  "kill_query e d query_id w = snd (env_send e (kill_request d query_id) w)"

definition ping :: "'w env \<Rightarrow> 'client http_driver \<Rightarrow> 'w \<Rightarrow> (query_error + unit) \<times> 'w" where
  "ping e d w =
     (case query_text e d ''SELECT 1'' w of (Inl err, w') \<Rightarrow> (Err err, w') | (Inr _, w') \<Rightarrow> (Ok (), w'))"

section \<open>Lemmas\<close>

lemma classify_errno:
  "query_errno (classify_error status header_code body) =
     (case parse_clickhouse_error header_code body of
        Some (code, _) \<Rightarrow> clickhouse_code_to_errno code
      | None \<Rightarrow> if status = 401 \<or> status = 403 then EACCES else if status = 404 then ENOENT else EIO)"
  by (auto simp: classify_error_def split: option.splits)

lemma failed_text_query:
  assumes "env_send e (text_request d sql) w = (Ok resp, w1)" and "\<not> rs_success resp" and "rs_text resp = Ok body"
  shows "query_text e d sql w = (Err (classify_error (rs_status resp) (rs_header resp exception_header) body), w1)"
  using assms by (simp add: query_text_def)

lemma query_text_world: "snd (query_text e d sql w) = snd (env_send e (text_request d sql) w)"
  by (simp add: query_text_def split: prod.splits sum.splits)

lemma query_stream_world:
  "snd (query_stream_with_id e d sql q w) = snd (env_send e (stream_request d sql q) w)"
  by (simp add: query_stream_with_id_def Let_def split: prod.splits sum.splits)

lemma append_settings_split:
  "\<exists>s. append_settings d sql streaming = sql @ '' SETTINGS '' @ s \<and> sublist ''readonly=2'' s"
proof -
  let ?c = "if comp_enabled (compression d) then '', enable_http_compression=1'' else ''''"
  let ?m = "if streaming then '', max_result_bytes='' @ show_nat (unat (max_result_bytes d)) else ''''"
  let ?s = "(''max_execution_time='' @ show_nat (unat (query_timeout_secs d)) @ ?m @ '', '')
      @ ''readonly=2'' @ ?c"
  have "append_settings d sql streaming = sql @ '' SETTINGS '' @ ?s"
    by (simp add: append_settings_def)
  moreover have "sublist ''readonly=2'' ?s"
    by (rule sublist_appendI)
  ultimately show ?thesis by blast
qed

lemma driver_new_rejects_conflict:
  "insecure tls \<Longrightarrow> ca_bundle_pem tls \<noteq> None \<Longrightarrow>
   driver_new from_pem build url usr pwd timeout mb tls cmp =
     Err (Query (Transport ''--insecure and --ca-bundle are mutually exclusive''))"
  by (simp add: driver_new_def tls_validate_def)

end
