(* ===== verification/SeqSource.thy ===== *)
theory SeqSource
  imports Prelude
begin

text \<open>
  The contract of an object that is read from front to back.  \<open>rest\<close> is what is still to be
  delivered, and \<open>fin\<close> the error that follows it, if any.  A read of \<open>n\<close> bytes returns the next
  \<open>n\<close> (fewer only at the end), then the error once, then nothing.  The streaming handle and the
  in-memory file satisfy this contract in their own theories, and the client's view, a
  sequence of reads as \<open>cat\<close> makes them, is derived here once.
\<close>

fun read_seq :: "('s \<Rightarrow> nat \<Rightarrow> ('e + bytes) \<times> 's) \<Rightarrow> 's \<Rightarrow> nat list \<Rightarrow> ('e + bytes) list \<times> 's" where
  "read_seq rd s [] = ([], s)"
| "read_seq rd s (n # ns) =
     (case rd s n of (r, s') \<Rightarrow> (case read_seq rd s' ns of (rs, s'') \<Rightarrow> (r # rs, s'')))"

fun oks :: "('e + bytes) list \<Rightarrow> bytes" where
  "oks [] = []"
| "oks (Inl e # rs) = oks rs"
| "oks (Inr b # rs) = b @ oks rs"

fun errs :: "('e + bytes) list \<Rightarrow> 'e list" where
  "errs [] = []"
| "errs (Inl e # rs) = e # errs rs"
| "errs (Inr b # rs) = errs rs"

text \<open>The loop of a client: stop at the first empty read or error.\<close>

fun cat_seq :: "('s \<Rightarrow> nat \<Rightarrow> ('e + bytes) \<times> 's) \<Rightarrow> 's \<Rightarrow> nat list \<Rightarrow> bytes \<times> 'e option \<times> 's" where
  "cat_seq rd s [] = ([], None, s)"
| "cat_seq rd s (n # ns) =
     (case rd s n of
        (Inl x, s') \<Rightarrow> ([], Some x, s')
      | (Inr b, s') \<Rightarrow>
          if b = [] then ([], None, s')
          else (case cat_seq rd s' ns of (bs, x, s'') \<Rightarrow> (b @ bs, x, s'')))"

locale seq_source =
  fixes rd :: "'s \<Rightarrow> nat \<Rightarrow> ('e + bytes) \<times> 's"
    and rest :: "'s \<Rightarrow> bytes"
    and fin :: "'s \<Rightarrow> 'e option"
    and inv :: "'s \<Rightarrow> bool"
  assumes rd_data: "inv s \<Longrightarrow> 0 < n \<Longrightarrow> rest s \<noteq> [] \<Longrightarrow> \<exists>s'. rd s n = (Ok (take n (rest s)), s')
            \<and> rest s' = drop n (rest s) \<and> fin s' = fin s \<and> inv s'"
    and rd_err: "inv s \<Longrightarrow> 0 < n \<Longrightarrow> rest s = [] \<Longrightarrow> fin s = Some x \<Longrightarrow>
            \<exists>s'. rd s n = (Err x, s') \<and> rest s' = [] \<and> fin s' = None \<and> inv s'"
    and rd_eof: "inv s \<Longrightarrow> 0 < n \<Longrightarrow> rest s = [] \<Longrightarrow> fin s = None \<Longrightarrow>
            \<exists>s'. rd s n = (Ok [], s') \<and> rest s' = [] \<and> fin s' = None \<and> inv s'"
begin

lemma read_seq_eof:
  assumes "inv s" and "list_all ((<) 0) ns" and "rest s = []" and "fin s = None"
  shows "oks (fst (read_seq rd s ns)) = [] \<and> errs (fst (read_seq rd s ns)) = []"
  using assms
proof (induction ns arbitrary: s)
  case (Cons n ns)
  then obtain s' where "rd s n = (Ok [], s')" "rest s' = []" "fin s' = None" "inv s'"
    using rd_eof [of s n] by auto
  with Cons.IH [of s'] Cons.prems show ?case by (auto split: prod.splits)
qed simp

lemma read_seq_oks:
  assumes "inv s" and "list_all ((<) 0) ns"
  shows "oks (fst (read_seq rd s ns)) = take (sum_list ns) (rest s)"
  using assms
proof (induction ns arbitrary: s)
  case (Cons n ns)
  show ?case
  proof (cases "rest s = []")
    case False
    then obtain s' where "rd s n = (Ok (take n (rest s)), s')" "rest s' = drop n (rest s)" "inv s'"
      using rd_data [of s n] Cons.prems by auto
    with Cons.IH [of s'] Cons.prems show ?thesis
      by (auto simp: take_add split: prod.splits)
  next
    case True
    show ?thesis
    proof (cases "fin s")
      case None
      then show ?thesis using read_seq_eof [OF Cons.prems True] True by simp
    next
      case (Some x)
      then obtain s' where s': "rd s n = (Err x, s')" "rest s' = []" "fin s' = None" "inv s'"
        using rd_err [of s n x] Cons.prems True by auto
      then have "oks (fst (read_seq rd s' ns)) = []"
        using read_seq_eof [of s' ns] Cons.prems by simp
      with s' True show ?thesis by (auto split: prod.splits)
    qed
  qed
qed simp

lemma read_seq_errs:
  assumes "inv s" and "list_all ((<) 0) ns"
  shows "errs (fst (read_seq rd s ns)) = [] \<or> errs (fst (read_seq rd s ns)) = [the (fin s)] \<and>
     fin s \<noteq> None \<and> length (rest s) < sum_list ns"
  using assms
proof (induction ns arbitrary: s)
  case (Cons n ns)
  show ?case
  proof (cases "rest s = []")
    case False
    then obtain s' where s': "rd s n = (Ok (take n (rest s)), s')" "rest s' = drop n (rest s)"
        "fin s' = fin s" "inv s'"
      using rd_data [of s n] Cons.prems by auto
    with Cons.IH [of s'] Cons.prems show ?thesis
      by (auto split: prod.splits)
  next
    case True
    show ?thesis
    proof (cases "fin s")
      case None
      then show ?thesis using read_seq_eof [OF Cons.prems True] by simp
    next
      case (Some x)
      then obtain s' where s': "rd s n = (Err x, s')" "rest s' = []" "fin s' = None" "inv s'"
        using rd_err [of s n x] Cons.prems True by auto
      then have "errs (fst (read_seq rd s' ns)) = []"
        using read_seq_eof [of s' ns] Cons.prems by simp
      with s' True Some Cons.prems show ?thesis by (auto split: prod.splits)
    qed
  qed
qed simp

text \<open>Enough reads deliver everything, and then the error if there is one.\<close>

lemma cat_seq_all:
  assumes "inv s" and "list_all ((<) 0) ns" and "length (rest s) < length ns"
  shows "\<exists>s'. cat_seq rd s ns = (rest s, fin s, s')"
  using assms
proof (induction ns arbitrary: s)
  case (Cons n ns)
  have inv: "inv s" and n: "0 < n" using Cons.prems by simp_all
  show ?case
  proof (cases "rest s = []")
    case True
    show ?thesis
    proof (cases "fin s")
      case None
      then show ?thesis using rd_eof [OF inv n True] True by auto
    next
      case (Some x)
      then show ?thesis using rd_err [OF inv n True] True by auto
    qed
  next
    case False
    obtain s' where s': "rd s n = (Ok (take n (rest s)), s')" "rest s' = drop n (rest s)"
        "fin s' = fin s" "inv s'"
      using rd_data [OF inv n False] by blast
    have "length (rest s') < length ns"
      using Cons.prems(3) s'(2) n False by (cases "rest s") auto
    then obtain s'' where "cat_seq rd s' ns = (rest s', fin s', s'')"
      using Cons.IH [OF s'(4)] Cons.prems(2) by auto
    with s' n False show ?thesis by simp
  qed
qed simp

lemma read_seq_all:
  assumes "inv s" and "list_all ((<) 0) ns" and "length (rest s) \<le> sum_list ns"
  shows "oks (fst (read_seq rd s ns)) = rest s"
  using read_seq_oks [OF assms(1,2)] assms(3) by simp

end

end
