(* ===== verification/StreamHandle.thy ===== *)
theory StreamHandle
  imports Driver SeqSource
begin

text \<open>
  \<open>src/stream.rs\<close>: the handle of a streamed file.  Reads are strictly sequential on one query's
  byte stream, except that a read far past the cursor fetches the table's last rows once and
  serves them as the end of the file (tail mode).

  \<open>rx\<close> is the list of the items that the channel will still deliver before it closes; theory
  \<open>Producer\<close> shows that the task and the bounded channel deliver exactly this sequence.  A
  \<open>recv().await\<close> that has to wait is not visible here: it returns the next item of the list, or
  \<open>None\<close> at its end.
\<close>

section \<open>State\<close>

definition PSEUDO_EOF :: u64 where "PSEUDO_EOF = u64_max div 2"

definition TAIL_TRIGGER_GAP :: u64 where "TAIL_TRIGGER_GAP = 32 * 1024 * 1024"

record tail_context =
  tc_db :: string
  tc_tbl :: string
  tc_order_expr :: string
  tc_partition :: "string option"
  tc_cfg :: tail_config

type_synonym item = "query_error + bytes"

record stream_inner =
  rx :: "item list"
  pending :: bytes
  pos :: u64
  upstream_done :: bool
  last_err :: "query_error option"
  tail_buf :: "bytes option"
  tail_attempted :: bool

record 'client stream_handle =
  sh_inner :: stream_inner
  reverse_warned :: bool
  sh_query_id :: string
  sh_driver :: "'client http_driver"
  sh_tail :: "tail_context option"

section \<open>Opening\<close>

text \<open>The items that the spawned task sends: it stops after the first error.\<close>

fun upto_err :: "item list \<Rightarrow> item list" where
  "upto_err [] = []"
| "upto_err (Inr b # s) = Ok b # upto_err s"
| "upto_err (Inl e # s) = [Err e]"

fun task_items :: "query_error + item list \<Rightarrow> item list" where
  "task_items (Inl e) = [Err e]"
| "task_items (Inr s) = upto_err s"

definition inner_new :: "item list \<Rightarrow> stream_inner" where
  "inner_new items =
     \<lparr>rx = items, pending = [], pos = 0, upstream_done = False, last_err = None,
      tail_buf = None, tail_attempted = False\<rparr>"

definition stream_spawn ::
  "'w env \<Rightarrow> 'client http_driver \<Rightarrow> string \<Rightarrow> tail_context option \<Rightarrow> 'w \<Rightarrow>
   'client stream_handle \<times> 'w" where
  "stream_spawn e d sql tail w =
     (case env_uuid e w of (uuid, w1) \<Rightarrow>
        let query_id = ''clickfs-'' @ uuid in
        case query_stream_with_id e d sql (Some query_id) w1 of (res, w2) \<Rightarrow>
          (\<lparr>sh_inner = inner_new (task_items res), reverse_warned = False, sh_query_id = query_id,
            sh_driver = d, sh_tail = tail\<rparr>, w2))"

section \<open>The tail buffer\<close>

definition reverse_tsv_rows :: "string \<Rightarrow> bytes" where
  "reverse_tsv_rows body =
     (if body = [] then []
      else
        let ls0 = str_split NL body;
            trailing_empty = (last ls0 = []);
            ls = (if trailing_empty then butlast ls0 else ls0);
            end_nl = (if trailing_empty then [NL] else [])
        in if length ls \<le> 1 then str_join [NL] ls @ end_nl
           else hd ls @ [NL] @ str_join [NL] (rev (tl ls)) @ end_nl)"

definition tail_sql :: "tail_context \<Rightarrow> string" where
  "tail_sql tc =
     sql_select_tail (tc_db tc) (tc_tbl tc) (tc_order_expr tc) (tc_partition tc)
       (tail_rows (tc_cfg tc))"

definition materialize_tail ::
  "'w env \<Rightarrow> 'client http_driver \<Rightarrow> tail_context \<Rightarrow> 'w \<Rightarrow> (query_error + bytes) \<times> 'w" where
  "materialize_tail e d tc w =
     (case query_text e d (tail_sql tc) w of
        (Inl err, w') \<Rightarrow> (Err err, w')
      | (Inr body, w') \<Rightarrow> (Ok (reverse_tsv_rows body), w'))"

definition need_materialize :: "'client stream_handle \<Rightarrow> u64 \<Rightarrow> bool" where
  "need_materialize h offset \<longleftrightarrow>
     (let g = sh_inner h in
      offset \<noteq> pos g \<and> \<not> tail_attempted g \<and> tail_buf g = None \<and> sh_tail h \<noteq> None
    \<and> sat_add (pos g) TAIL_TRIGGER_GAP < offset)"

definition maybe_materialize ::
  "'w env \<Rightarrow> 'client stream_handle \<Rightarrow> u64 \<Rightarrow> 'w \<Rightarrow> 'client stream_handle \<times> 'w" where
  "maybe_materialize e h offset w =
     (if need_materialize h offset then
        (case sh_tail h of
           None \<Rightarrow> (h, w)
         | Some tc \<Rightarrow>
            (case materialize_tail e (sh_driver h) tc w of
               (Inr buf, w') \<Rightarrow>
                 (h\<lparr>sh_inner := (sh_inner h)\<lparr>tail_attempted := True, tail_buf := Some buf\<rparr>\<rparr>, w')
             | (Inl _, w') \<Rightarrow> (h\<lparr>sh_inner := (sh_inner h)\<lparr>tail_attempted := True\<rparr>\<rparr>, w')))
      else (h, w))"

section \<open>Reading\<close>

text \<open>The slice that the tail buffer serves, when the offset is inside its range or past it.\<close>

definition tail_read :: "stream_inner \<Rightarrow> u64 \<Rightarrow> nat \<Rightarrow> bytes option" where
  "tail_read g offset sz =
     (case tail_buf g of
        None \<Rightarrow> None
      | Some buf \<Rightarrow>
          (let buf_origin = sat_sub PSEUDO_EOF (len_u64 buf) in
           if buf_origin \<le> offset \<and> offset < PSEUDO_EOF then
             (let loc = unat (offset - buf_origin) in
              if length buf \<le> loc then Some []
              else Some (take (min sz (length buf - loc)) (drop loc buf)))
           else if PSEUDO_EOF \<le> offset then Some []
           else None))"

text \<open>The loop that pulls from the channel until there are \<open>size\<close> bytes or the end.\<close>

function pull :: "nat \<Rightarrow> stream_inner \<Rightarrow> stream_inner" where
  "pull sz g =
     (if length (pending g) < sz \<and> \<not> upstream_done g then
        (case rx g of
           Inr b # r \<Rightarrow> pull sz (g\<lparr>rx := r, pending := pending g @ b\<rparr>)
         | Inl e # r \<Rightarrow> g\<lparr>rx := r, upstream_done := True, last_err := Some e\<rparr>
         | [] \<Rightarrow> g\<lparr>upstream_done := True\<rparr>)
      else g)"
  by pat_completeness auto
termination
  by (relation "measure (\<lambda>(sz, g). length (rx g))") auto

declare pull.simps [simp del]

definition forward_read :: "stream_inner \<Rightarrow> nat \<Rightarrow> (clickfs_error + bytes) \<times> stream_inner" where
  "forward_read g sz =
     (let g1 = pull sz g in
      case (pending g1, last_err g1) of
        ([], Some e) \<Rightarrow> (Err (Query e), g1\<lparr>last_err := None\<rparr>)
      | _ \<Rightarrow>
          (let n = min sz (length (pending g1)) in
           (Ok (take n (pending g1)),
            g1\<lparr>pending := drop n (pending g1), pos := pos g1 + word_of_nat n\<rparr>)))"

definition serve ::
  "stream_inner \<Rightarrow> bool \<Rightarrow> u64 \<Rightarrow> nat \<Rightarrow> (clickfs_error + bytes) \<times> stream_inner \<times> bool" where
  "serve g warned offset sz =
     (case (if offset = pos g then last_err g else None) of
        Some e \<Rightarrow> (Err (Query e), g\<lparr>last_err := None\<rparr>, warned)
      | None \<Rightarrow>
         (case tail_read g offset sz of
            Some b \<Rightarrow> (Ok b, g, warned)
          | None \<Rightarrow>
              if offset \<noteq> pos g then
                (Err (ReadOrder (pos g) offset), g, warned \<or> offset < pos g)
              else (case forward_read g sz of (r, g') \<Rightarrow> (r, g', warned))))"

definition read_blocking ::
  "'w env \<Rightarrow> 'client stream_handle \<Rightarrow> u64 \<Rightarrow> nat \<Rightarrow> 'w \<Rightarrow>
   (clickfs_error + bytes) \<times> 'client stream_handle \<times> 'w" where
  "read_blocking e h offset sz w =
     (case maybe_materialize e h offset w of (h1, w1) \<Rightarrow>
        case serve (sh_inner h1) (reverse_warned h1) offset sz of (r, g, warned) \<Rightarrow>
          (r, h1\<lparr>sh_inner := g, reverse_warned := warned\<rparr>, w1))"

text \<open>\<open>Drop\<close>: the task is cancelled (see \<open>Producer\<close>) and the server told to kill the query.\<close>

definition stream_drop :: "'w env \<Rightarrow> 'client stream_handle \<Rightarrow> 'w \<Rightarrow> 'w" where
  "stream_drop e h w = kill_query e (sh_driver h) (sh_query_id h) w"


section \<open>Row reversal\<close>

text \<open>The body of a newline-terminated table: a header line, the rows, and the newline.\<close>

definition tsv_body :: "string \<Rightarrow> string list \<Rightarrow> string" where
  "tsv_body h rows = str_join [NL] (h # rows) @ [NL]"

definition nl_free :: "string \<Rightarrow> bool" where
  "nl_free l \<longleftrightarrow> NL \<notin> set l"

lemma split_tsv_body:
  assumes "list_all nl_free (h # rows)"
  shows "str_split NL (tsv_body h rows) = (h # rows) @ [[]]"
proof -
  have "list_all (\<lambda>p. NL \<notin> set p) (h # rows)"
    using assms by (simp add: nl_free_def list_all_iff)
  then have "str_split NL (str_join [NL] (h # rows)) = h # rows"
    by (intro str_split_join) simp_all
  then show ?thesis by (simp only: tsv_body_def str_split_snoc_sep)
qed

lemma reverse_tsv_body:
  assumes "list_all nl_free (h # rows)"
  shows "reverse_tsv_rows (tsv_body h rows) = tsv_body h (rev rows)"
proof (cases "rows = []")
  case False
  then have "rev rows \<noteq> []" by simp
  with False show ?thesis
    using split_tsv_body [OF assms]
    by (simp add: reverse_tsv_rows_def Let_def tsv_body_def [of h "rev rows"] str_join_Cons)
      (simp add: tsv_body_def)
next
  case True
  with split_tsv_body [OF assms] show ?thesis
    by (simp add: reverse_tsv_rows_def Let_def) (simp add: tsv_body_def)
qed

lemma newline_terminated_body:
  assumes "body \<noteq> []" and "last body = NL"
  obtains h rows where "body = tsv_body h rows" and "list_all nl_free (h # rows)"
proof -
  obtain x where x: "body = x @ [NL]"
    using assms by (metis append_butlast_last_id)
  obtain h rows where hr: "str_split NL x = h # rows"
    by (cases "str_split NL x") auto
  have "list_all nl_free (h # rows)"
    using str_split_pieces [of _ NL x] by (simp add: hr list_all_iff nl_free_def)
  moreover have "body = tsv_body h rows"
    using str_join_split [of NL x] by (simp add: x hr tsv_body_def)
  ultimately show ?thesis using that by blast
qed

lemma reverse_involution:
  assumes "body \<noteq> []" and "last body = NL"
  shows "reverse_tsv_rows (reverse_tsv_rows body) = body"
proof -
  obtain h rows where b: "body = tsv_body h rows" and ok: "list_all nl_free (h # rows)"
    using newline_terminated_body [OF assms] by blast
  have "list_all nl_free (h # rev rows)" using ok by (simp add: list_all_iff)
  then show ?thesis using ok by (simp add: b reverse_tsv_body)
qed

lemma length_join_rev:
  "length (str_join sep (rev ps)) = length (str_join sep ps)"
  by (simp add: length_str_join rev_map [symmetric])

lemma join_body_lines:
  assumes "body \<noteq> []"
  shows "body = (if last (str_split NL body) = [] then str_join [NL] (butlast (str_split NL body)) @ [NL]
                 else str_join [NL] (str_split NL body))"
proof (cases "last (str_split NL body) = []")
  case True
  with assms obtain x where "body = x @ [NL]"
    by (metis append_butlast_last_id last_str_split_Nil_iff)
  then show ?thesis by (simp add: str_split_snoc_sep)
qed simp

lemma length_reversed_lines:
  assumes "1 < length ls"
  shows "length (hd ls @ [NL] @ str_join [NL] (rev (tl ls)) @ e) = length (str_join [NL] ls @ e)"
proof -
  obtain h r rs where "ls = h # r # rs"
    using assms by (cases ls; cases "tl ls") auto
  then show ?thesis using length_join_rev [of "[NL]" "r # rs"] by simp
qed

lemma reverse_tsv_length: "length (reverse_tsv_rows body) = length body"
proof (cases "body = []")
  case False
  define ls0 where "ls0 = str_split NL body"
  define e where "e = (if last ls0 = [] then [NL] else [])"
  define ls where "ls = (if last ls0 = [] then butlast ls0 else ls0)"
  have "body = str_join [NL] ls @ e"
    using join_body_lines [OF False] by (auto simp: ls_def e_def ls0_def)
  moreover have "reverse_tsv_rows body =
      (if length ls \<le> 1 then str_join [NL] ls @ e else hd ls @ [NL] @ str_join [NL] (rev (tl ls)) @ e)"
    unfolding reverse_tsv_rows_def Let_def ls_def e_def ls0_def using False by (simp only: if_False)
  ultimately show ?thesis
    using length_reversed_lines [of ls e] by (metis not_le)
qed (simp add: reverse_tsv_rows_def)

section \<open>The forward stream\<close>

text \<open>
  What the stream will still deliver: the buffered bytes, then the chunks up to the first error,
  and that error.
\<close>

fun items_bytes :: "item list \<Rightarrow> bytes" where
  "items_bytes [] = []"
| "items_bytes (Inr b # r) = b @ items_bytes r"
| "items_bytes (Inl e # r) = []"

fun items_err :: "item list \<Rightarrow> query_error option" where
  "items_err [] = None"
| "items_err (Inr b # r) = items_err r"
| "items_err (Inl e # r) = Some e"

definition fwd_rest :: "stream_inner \<Rightarrow> bytes" where
  "fwd_rest g = pending g @ (if upstream_done g then [] else items_bytes (rx g))"

definition fwd_err :: "stream_inner \<Rightarrow> query_error option" where
  "fwd_err g =
     (case last_err g of
        Some e \<Rightarrow> Some e
      | None \<Rightarrow> if upstream_done g then None else items_err (rx g))"

text \<open>A stored error only exists after all data has been handed out.\<close>

definition inner_inv :: "stream_inner \<Rightarrow> bool" where
  "inner_inv g \<longleftrightarrow> (last_err g \<noteq> None \<longrightarrow> upstream_done g \<and> pending g = [])"

lemma inner_new_inv [wf_intros]: "inner_inv (inner_new items)"
  by (simp add: inner_inv_def inner_new_def)

lemma pull_stop:
  "sz \<le> length (pending g) \<or> upstream_done g \<Longrightarrow> pull sz g = g"
  by (subst pull.simps) auto

lemma pull_step:
  assumes "length (pending g) < sz" and "\<not> upstream_done g"
  shows "rx g = [] \<Longrightarrow> pull sz g = g\<lparr>upstream_done := True\<rparr>"
    and "rx g = Inl e # r \<Longrightarrow> pull sz g = g\<lparr>rx := r, upstream_done := True, last_err := Some e\<rparr>"
    and "rx g = Inr b # r \<Longrightarrow> pull sz g = pull sz (g\<lparr>rx := r, pending := pending g @ b\<rparr>)"
  using assms by (simp_all add: pull.simps [of sz g])

lemma pull_cases [case_names stop eof err data]:
  assumes "sz \<le> length (pending g) \<or> upstream_done g \<Longrightarrow> P"
    and "length (pending g) < sz \<Longrightarrow> \<not> upstream_done g \<Longrightarrow> rx g = [] \<Longrightarrow> P"
    and "\<And>e r. length (pending g) < sz \<Longrightarrow> \<not> upstream_done g \<Longrightarrow> rx g = Inl e # r \<Longrightarrow> P"
    and "\<And>b r. length (pending g) < sz \<Longrightarrow> \<not> upstream_done g \<Longrightarrow> rx g = Inr b # r \<Longrightarrow> P"
  shows P
proof (cases "length (pending g) < sz \<and> \<not> upstream_done g")
  case True
  show ?thesis
  proof (cases "rx g")
    case (Cons x r)
    then show ?thesis using assms(3,4) True by (cases x) auto
  qed (use assms(2) True in blast)
qed (use assms(1) in auto)

lemma pull_frame:
  "pos (pull sz g) = pos g \<and> tail_buf (pull sz g) = tail_buf g
   \<and> tail_attempted (pull sz g) = tail_attempted g"
proof (induction sz g rule: pull.induct)
  case (1 sz g)
  show ?case
    by (rule pull_cases [of sz g]) (use 1 in \<open>simp_all add: pull_stop pull_step\<close>)
qed

lemma pull_rest:
  assumes "last_err g = None"
  shows "fwd_rest (pull sz g) = fwd_rest g \<and> fwd_err (pull sz g) = fwd_err g
    \<and> (sz \<le> length (pending (pull sz g)) \<or> upstream_done (pull sz g))
    \<and> (last_err (pull sz g) = None
       \<or> upstream_done (pull sz g) \<and> length (pending (pull sz g)) < sz)"
  using assms
proof (induction sz g rule: pull.induct)
  case (1 sz g)
  show ?case
  proof (cases rule: pull_cases [of sz g])
    case (data b r)
    let ?g = "g\<lparr>rx := r, pending := pending g @ b\<rparr>"
    have "fwd_rest ?g = fwd_rest g" and "fwd_err ?g = fwd_err g"
      using data by (simp_all add: fwd_rest_def fwd_err_def split: option.split)
    then show ?thesis using 1 data by (simp add: pull_step)
  qed (use 1 in \<open>auto simp: pull_stop pull_step fwd_rest_def fwd_err_def\<close>)
qed

text \<open>
  The read at the cursor, as a function of the handle's inner state: what \<open>serve\<close> does there when
  no tail buffer is in the way.
\<close>

definition cursor_read :: "stream_inner \<Rightarrow> nat \<Rightarrow> (clickfs_error + bytes) \<times> stream_inner" where
  "cursor_read g sz =
     (case serve g False (pos g) sz of (r, g', _) \<Rightarrow> (r, g'))"

definition below_window :: "stream_inner \<Rightarrow> bool" where
  "below_window g \<longleftrightarrow>
     (case tail_buf g of None \<Rightarrow> True
      | Some buf \<Rightarrow> unat (pos g) + length (fwd_rest g) + length buf < 2 ^ 63 - 1)"

definition fwd_inv :: "stream_inner \<Rightarrow> bool" where
  "fwd_inv g \<longleftrightarrow> inner_inv g \<and> below_window g"

lemma unat_PSEUDO_EOF: "unat PSEUDO_EOF = 2 ^ 63 - 1"
  by (simp add: PSEUDO_EOF_def u64_max_def)

lemma tail_read_below:
  assumes "below_window g"
  shows "tail_read g (pos g) sz = None"
proof (cases "tail_buf g")
  case (Some buf)
  with assms have "unat (pos g) + length buf < 2 ^ 63 - 1"
    by (simp add: below_window_def)
  then have "unat (pos g) < unat (sat_sub PSEUDO_EOF (len_u64 buf))"
    by (simp add: unat_sat_sub unat_PSEUDO_EOF unat_len_u64)
  moreover have "unat (sat_sub PSEUDO_EOF (len_u64 buf)) \<le> unat PSEUDO_EOF"
    by (simp add: unat_sat_sub)
  ultimately show ?thesis
    using Some by (simp add: tail_read_def Let_def word_le_nat_alt word_less_nat_alt)
qed (simp add: tail_read_def)

lemma serve_at_cursor:
  assumes "below_window g" and "last_err g = None"
  shows "serve g warned (pos g) sz = (case forward_read g sz of (r, g') \<Rightarrow> (r, g', warned))"
  using assms by (simp add: serve_def tail_read_below)

lemma cursor_read_simp:
  assumes "below_window g"
  shows "cursor_read g sz =
     (case last_err g of Some e \<Rightarrow> (Err (Query e), g\<lparr>last_err := None\<rparr>) | None \<Rightarrow> forward_read g sz)"
proof (cases "last_err g")
  case None
  then show ?thesis
    using serve_at_cursor [OF assms] by (simp add: cursor_read_def split: prod.splits)
qed (simp add: cursor_read_def serve_def)

lemma below_window_mono:
  assumes "below_window g" and "tail_buf g' = tail_buf g"
    and "unat (pos g') + length (fwd_rest g') \<le> unat (pos g) + length (fwd_rest g)"
  shows "below_window g'"
  using assms by (auto simp: below_window_def split: option.splits)

lemma fwd_rest_take:
  assumes "sz \<le> length (pending g) \<or> upstream_done g"
  shows "take (min sz (length (pending g))) (pending g) = take sz (fwd_rest g)"
    and "drop (min sz (length (pending g))) (pending g) @ (if upstream_done g then [] else items_bytes (rx g))
       = drop sz (fwd_rest g)"
  using assms by (auto simp: fwd_rest_def min_def)

lemma unat_advance: "unat (p + word_of_nat n :: u64) \<le> unat p + n"
proof -
  have "unat (p + word_of_nat n) \<le> unat p + unat (word_of_nat n :: u64)"
    by (simp add: unat_word_ariths)
  also have "unat (word_of_nat n :: u64) \<le> n"
    by (simp add: unat_of_nat)
  finally show ?thesis by simp
qed

text \<open>Data: the next bytes are returned, the error that follows is kept.\<close>

lemma forward_read_data:
  assumes inv: "fwd_inv g" and le: "last_err g = None" and ne: "fwd_rest g \<noteq> []" and sz: "0 < sz"
  shows "\<exists>g'. forward_read g sz = (Ok (take sz (fwd_rest g)), g') \<and> fwd_rest g' = drop sz (fwd_rest g)
     \<and> fwd_err g' = fwd_err g \<and> fwd_inv g'
     \<and> pos g' = pos g + word_of_nat (min sz (length (fwd_rest g)))"
proof -
  let ?g = "pull sz g"
  have rest: "fwd_rest ?g = fwd_rest g" and err: "fwd_err ?g = fwd_err g"
    and stop: "sz \<le> length (pending ?g) \<or> upstream_done ?g"
    and kept: "last_err ?g = None \<or> upstream_done ?g \<and> length (pending ?g) < sz"
    using pull_rest [OF le, of sz] by auto
  let ?n = "min sz (length (pending ?g))"
  let ?g' = "?g\<lparr>pending := drop ?n (pending ?g), pos := pos ?g + word_of_nat ?n\<rparr>"
  have "pending ?g \<noteq> []"
  proof
    assume *: "pending ?g = []"
    with stop sz have "upstream_done ?g" by simp
    with * rest ne show False by (simp add: fwd_rest_def)
  qed
  then have read: "forward_read g sz = (Ok (take ?n (pending ?g)), ?g')"
    by (cases "pending ?g") (simp_all add: forward_read_def Let_def)
  have out: "take ?n (pending ?g) = take sz (fwd_rest g)"
    using fwd_rest_take(1) [OF stop] by (simp only: rest)
  have "fwd_rest ?g' = drop ?n (pending ?g) @ (if upstream_done ?g then [] else items_bytes (rx ?g))"
    by (simp add: fwd_rest_def)
  also have "\<dots> = drop sz (fwd_rest g)"
    using fwd_rest_take(2) [OF stop] by (simp only: rest)
  finally have left: "fwd_rest ?g' = drop sz (fwd_rest g)" .
  have n: "?n = min sz (length (fwd_rest g))"
    using arg_cong [OF out, of length] by (simp only: length_take)
  have frame: "pos ?g = pos g" "tail_buf ?g' = tail_buf g"
    using pull_frame [of sz g] by simp_all
  have "inner_inv ?g'"
    using kept by (auto simp: inner_inv_def)
  moreover have "below_window ?g'"
  proof (rule below_window_mono)
    show "unat (pos ?g') + length (fwd_rest ?g') \<le> unat (pos g) + length (fwd_rest g)"
      unfolding left using unat_advance [of "pos g" ?n] n frame by simp
  qed (use inv frame in \<open>simp_all add: fwd_inv_def\<close>)
  ultimately have "fwd_inv ?g'" by (simp add: fwd_inv_def)
  moreover have "fwd_err ?g' = fwd_err g"
    unfolding err [symmetric] by (simp add: fwd_err_def split: option.split)
  moreover have "pos ?g' = pos g + word_of_nat (min sz (length (fwd_rest g)))"
    using frame n by simp
  ultimately show ?thesis using read out left by simp
qed

text \<open>No data: the error is returned once, and without one the read is empty.\<close>

lemma forward_read_end:
  assumes inv: "fwd_inv g" and le: "last_err g = None" and ne: "fwd_rest g = []" and sz: "0 < sz"
  shows "\<exists>g'. forward_read g sz = ((case fwd_err g of Some e \<Rightarrow> Err (Query e) | None \<Rightarrow> Ok []), g')
     \<and> fwd_rest g' = [] \<and> fwd_err g' = None \<and> fwd_inv g' \<and> pos g' = pos g"
proof -
  let ?g = "pull sz g"
  have rest: "fwd_rest ?g = []" and err: "fwd_err ?g = fwd_err g"
    using pull_rest [OF le, of sz] ne by auto
  have p: "pending ?g = []" using rest by (simp add: fwd_rest_def)
  then have ud: "upstream_done ?g"
    using pull_rest [OF le, of sz] sz by auto
  have e: "last_err ?g = fwd_err g"
  proof (cases "last_err ?g")
    case None
    with ud have "fwd_err ?g = None" by (simp add: fwd_err_def)
    with None err show ?thesis by simp
  next
    case (Some x)
    then have "fwd_err ?g = Some x" by (simp add: fwd_err_def)
    with Some err show ?thesis by simp
  qed
  have frame: "pos ?g = pos g" "tail_buf ?g = tail_buf g"
    using pull_frame [of sz g] by simp_all
  let ?g' = "?g\<lparr>last_err := None\<rparr>"
  have rest': "fwd_rest ?g' = []" "fwd_err ?g' = None"
    using p ud by (simp_all add: fwd_rest_def fwd_err_def)
  have "below_window g" using inv by (simp add: fwd_inv_def)
  then have "below_window ?g'"
    by (rule below_window_mono) (use frame rest' in simp_all)
  then have inv': "fwd_inv ?g'" by (simp add: fwd_inv_def inner_inv_def)
  show ?thesis
  proof (cases "fwd_err g")
    case None
    with e have "?g' = ?g" by simp
    moreover have "forward_read g sz = (Ok [], ?g)"
      using p None e by (simp add: forward_read_def Let_def)
    ultimately show ?thesis using None inv' rest' frame by (metis option.case(1))
  next
    case (Some x)
    then have "forward_read g sz = (Err (Query x), ?g')"
      using p e by (simp add: forward_read_def Let_def)
    then show ?thesis using Some inv' rest' frame by simp
  qed
qed

lemma cursor_read_stored_err:
  assumes inv: "fwd_inv g" and le: "last_err g = Some x"
  shows "cursor_read g sz = (Err (Query x), g\<lparr>last_err := None\<rparr>)
    \<and> fwd_rest g = [] \<and> fwd_err g = Some x
    \<and> fwd_rest (g\<lparr>last_err := None\<rparr>) = [] \<and> fwd_err (g\<lparr>last_err := None\<rparr>) = None
    \<and> fwd_inv (g\<lparr>last_err := None\<rparr>)"
  using assms cursor_read_simp [of g sz]
  by (auto simp: fwd_inv_def inner_inv_def fwd_rest_def fwd_err_def below_window_def
      split: option.splits)

text \<open>The stream is a sequential source.\<close>

interpretation fwd: seq_source cursor_read fwd_rest "\<lambda>g. map_option Query (fwd_err g)" fwd_inv
proof
  fix g :: stream_inner and n :: nat and x
  assume inv: "fwd_inv g" and n: "0 < n"
  then have bw: "below_window g" by (simp add: fwd_inv_def)
  {
    assume ne: "fwd_rest g \<noteq> []"
    then have "last_err g = None"
      using cursor_read_stored_err [OF inv] by (cases "last_err g") auto
    then show "\<exists>s'. cursor_read g n = (Ok (take n (fwd_rest g)), s')
        \<and> fwd_rest s' = drop n (fwd_rest g)
        \<and> map_option Query (fwd_err s') = map_option Query (fwd_err g) \<and> fwd_inv s'"
      using forward_read_data [OF inv _ ne n] cursor_read_simp [OF bw, of n] by auto
  }
  {
    assume ne: "fwd_rest g = []" and e: "map_option Query (fwd_err g) = Some x"
    show "\<exists>s'. cursor_read g n = (Err x, s') \<and> fwd_rest s' = []
        \<and> map_option Query (fwd_err s') = None \<and> fwd_inv s'"
    proof (cases "last_err g")
      case None
      then show ?thesis
        using forward_read_end [OF inv None ne n] cursor_read_simp [OF bw, of n] e by auto
    next
      case (Some y)
      then show ?thesis
        using cursor_read_stored_err [OF inv Some, of n] e by auto
    qed
  }
  {
    assume ne: "fwd_rest g = []" and e: "map_option Query (fwd_err g) = None"
    then have "last_err g = None" by (auto simp: fwd_err_def split: option.splits)
    then show "\<exists>s'. cursor_read g n = (Ok [], s') \<and> fwd_rest s' = []
        \<and> map_option Query (fwd_err s') = None \<and> fwd_inv s'"
      using forward_read_end [OF inv _ ne n] cursor_read_simp [OF bw, of n] e by auto
  }
qed

section \<open>Reads through the handle\<close>

lemma materialize_at_cursor [step_simps]:
  "maybe_materialize e h (pos (sh_inner h)) w = (h, w)"
  by (simp add: maybe_materialize_def need_materialize_def Let_def)

lemma handle_update_same: "h\<lparr>sh_inner := sh_inner h, reverse_warned := reverse_warned h\<rparr> = h"
  by simp

text \<open>A read at the cursor is \<open>cursor_read\<close> on the inner state, and sends nothing.\<close>

lemma read_blocking_cursor:
  assumes "fwd_inv (sh_inner h)" and "cursor_read (sh_inner h) sz = (r, g)"
  shows "read_blocking e h (pos (sh_inner h)) sz w = (r, h\<lparr>sh_inner := g\<rparr>, w)"
proof -
  let ?g = "sh_inner h"
  have bw: "below_window ?g" using assms(1) by (simp add: fwd_inv_def)
  have "serve ?g (reverse_warned h) (pos ?g) sz = (r, g, reverse_warned h)"
  proof (cases "last_err ?g")
    case None
    then have "forward_read ?g sz = (r, g)"
      using cursor_read_simp [OF bw, of sz] assms(2) by simp
    then show ?thesis
      using serve_at_cursor [OF bw None] by simp
  next
    case (Some x)
    then show ?thesis
      using cursor_read_simp [OF bw, of sz] assms(2) by (simp add: serve_def)
  qed
  then show ?thesis
    by (simp add: read_blocking_def materialize_at_cursor)
qed

lemma cursor_read_pos:
  assumes "fwd_inv g" and "0 < sz" and "cursor_read g sz = (Ok b, g')"
  shows "pos g' = pos g + len_u64 b"
proof -
  have bw: "below_window g" using assms(1) by (simp add: fwd_inv_def)
  have le: "last_err g = None"
    using cursor_read_simp [OF bw, of sz] assms(3) by (cases "last_err g") auto
  then have fr: "forward_read g sz = (Ok b, g')"
    using cursor_read_simp [OF bw, of sz] assms(3) by simp
  show ?thesis
  proof (cases "fwd_rest g = []")
    case True
    with forward_read_end [OF assms(1) le True assms(2)] fr show ?thesis
      by (auto simp: len_u64_def split: option.splits)
  next
    case False
    with forward_read_data [OF assms(1) le False assms(2)] fr show ?thesis
      by (auto simp: len_u64_def min.commute)
  qed
qed

text \<open>A read away from the cursor does not touch the forward stream.\<close>

definition same_forward :: "stream_inner \<Rightarrow> stream_inner \<Rightarrow> bool" where
  "same_forward g g' \<longleftrightarrow>
     rx g' = rx g \<and> pending g' = pending g \<and> pos g' = pos g \<and> upstream_done g' = upstream_done g
   \<and> last_err g' = last_err g"

lemma maybe_materialize_forward:
  "same_forward (sh_inner h) (sh_inner (fst (maybe_materialize e h offset w)))"
  by (auto simp: maybe_materialize_def same_forward_def split: option.splits prod.splits sum.splits)

lemma serve_off_cursor:
  assumes "offset \<noteq> pos g" and "serve g warned offset sz = (r, g', warned')"
  shows "g' = g"
  using assms by (auto simp: serve_def split: option.splits)

lemma read_blocking_off_cursor:
  assumes "offset \<noteq> pos (sh_inner h)" and "read_blocking e h offset sz w = (r, h', w')"
  shows "same_forward (sh_inner h) (sh_inner h')"
proof -
  obtain h1 w1 where m: "maybe_materialize e h offset w = (h1, w1)" by fastforce
  then have same: "same_forward (sh_inner h) (sh_inner h1)"
    using maybe_materialize_forward [of h e offset w] by simp
  obtain r1 g1 b1 where s: "serve (sh_inner h1) (reverse_warned h1) offset sz = (r1, g1, b1)"
    using prod_cases3 by blast
  have "offset \<noteq> pos (sh_inner h1)" using same assms(1) by (simp add: same_forward_def)
  then have "g1 = sh_inner h1" using s by (rule serve_off_cursor)
  with assms(2) m s have "sh_inner h' = sh_inner h1" by (auto simp: read_blocking_def)
  with same show ?thesis by simp
qed

text \<open>The tail buffer is a window that ends at the pseudo end of file.\<close>

lemma tail_read_window:
  assumes buf: "tail_buf g = Some buf" and len: "length buf < 2 ^ 63"
    and off: "unat offset + length buf = 2 ^ 63 - 1 + k" and k: "k < length buf"
  shows "tail_read g offset sz = Some (take sz (drop k buf))"
proof -
  have origin: "unat (sat_sub PSEUDO_EOF (len_u64 buf)) = 2 ^ 63 - 1 - length buf"
    using len by (simp add: unat_sat_sub unat_PSEUDO_EOF unat_len_u64)
  have le: "sat_sub PSEUDO_EOF (len_u64 buf) \<le> offset"
    unfolding word_le_nat_alt origin using off by simp
  have lt: "offset < PSEUDO_EOF"
    unfolding word_less_nat_alt unat_PSEUDO_EOF using off k by simp
  have loc: "unat (offset - sat_sub PSEUDO_EOF (len_u64 buf)) = k"
    using le off len k by (simp add: unat_sub origin)
  have "take (min sz (length buf - k)) (drop k buf) = take sz (drop k buf)"
    by (simp add: min_def)
  with buf le lt loc k show ?thesis by (simp add: tail_read_def Let_def)
qed

lemma tail_read_past:
  assumes "tail_buf g = Some buf" and "2 ^ 63 - 1 \<le> unat offset"
  shows "tail_read g offset sz = Some []"
proof -
  have "PSEUDO_EOF \<le> offset"
    unfolding word_le_nat_alt unat_PSEUDO_EOF using assms(2) .
  with assms(1) show ?thesis by (auto simp: tail_read_def Let_def)
qed

lemma tail_read_before:
  assumes "tail_buf g = Some buf" and "unat offset + length buf < 2 ^ 63 - 1"
  shows "tail_read g offset sz = None"
proof -
  have "unat offset < unat (sat_sub PSEUDO_EOF (len_u64 buf))"
    using assms(2) by (simp add: unat_sat_sub unat_PSEUDO_EOF unat_len_u64)
  moreover have "offset < PSEUDO_EOF"
    unfolding word_less_nat_alt unat_PSEUDO_EOF using assms(2) by simp
  ultimately show ?thesis
    using assms(1) by (simp add: tail_read_def Let_def word_less_nat_alt word_le_nat_alt)
qed

lemma tail_read_cases:
  assumes "tail_buf g = Some buf" and "length buf < 2 ^ 63 - 1"
  shows "tail_read g offset sz =
     (if 2 ^ 63 - 1 \<le> unat offset then Some []
      else if 2 ^ 63 - 1 \<le> unat offset + length buf
           then Some (take sz (drop (unat offset + length buf - (2 ^ 63 - 1)) buf))
      else None)"
proof -
  consider (past) "2 ^ 63 - 1 \<le> unat offset"
    | (inside) "unat offset < 2 ^ 63 - 1" "2 ^ 63 - 1 \<le> unat offset + length buf"
    | (before) "unat offset + length buf < 2 ^ 63 - 1" by linarith
  then show ?thesis
  proof cases
    case past
    then show ?thesis using tail_read_past [OF assms(1) past] by simp
  next
    case inside
    let ?k = "unat offset + length buf - (2 ^ 63 - 1)"
    have "tail_read g offset sz = Some (take sz (drop ?k buf))"
      by (rule tail_read_window [OF assms(1)]) (use assms(2) inside in linarith)+
    with inside show ?thesis by simp
  next
    case before
    then show ?thesis using tail_read_before [OF assms(1) before] by simp
  qed
qed

text \<open>The tail query is sent at most once in the life of a handle.\<close>

lemma maybe_materialize_once:
  assumes "maybe_materialize e h offset w = (h', w')"
  shows "sh_tail h' = sh_tail h \<and> sh_driver h' = sh_driver h \<and>
    (if need_materialize h offset
     then tail_attempted (sh_inner h') \<and>
       (\<exists>tc. sh_tail h = Some tc \<and> w' = snd (env_send e (text_request (sh_driver h) (tail_sql tc)) w))
     else h' = h \<and> w' = w)"
proof (cases "need_materialize h offset")
  case True
  then obtain tc where tc: "sh_tail h = Some tc"
    by (auto simp: need_materialize_def Let_def)
  obtain res w1 where q: "query_text e (sh_driver h) (tail_sql tc) w = (res, w1)" by fastforce
  have "w1 = snd (env_send e (text_request (sh_driver h) (tail_sql tc)) w)"
    using query_text_world [of e "sh_driver h" "tail_sql tc" w] q by simp
  then show ?thesis
    using assms True tc q
    by (cases res) (auto simp: maybe_materialize_def materialize_tail_def)
next
  case False
  with assms show ?thesis by (auto simp: maybe_materialize_def)
qed

lemma serve_attempted:
  "serve g warned offset sz = (r, g', warned') \<Longrightarrow> tail_attempted g' = tail_attempted g"
  using pull_frame [of sz g]
  by (auto simp: serve_def forward_read_def Let_def split: option.splits if_splits list.splits)

lemma read_blocking_world:
  assumes "read_blocking e h offset sz w = (r, h', w')"
  shows "sh_tail h' = sh_tail h \<and> sh_driver h' = sh_driver h \<and>
    (if need_materialize h offset
     then tail_attempted (sh_inner h') \<and>
       (\<exists>tc. sh_tail h = Some tc \<and> w' = snd (env_send e (text_request (sh_driver h) (tail_sql tc)) w))
     else w' = w \<and> tail_attempted (sh_inner h') = tail_attempted (sh_inner h))"
proof -
  obtain h1 w1 where m: "maybe_materialize e h offset w = (h1, w1)" by fastforce
  obtain r1 g1 b1 where s: "serve (sh_inner h1) (reverse_warned h1) offset sz = (r1, g1, b1)"
    using prod_cases3 by blast
  from assms m s have "h' = h1\<lparr>sh_inner := g1, reverse_warned := b1\<rparr>" and "w' = w1"
    by (auto simp: read_blocking_def)
  then show ?thesis
    using maybe_materialize_once [OF m] serve_attempted [OF s] by auto
qed

fun run_reads :: "'w env \<Rightarrow> 'client stream_handle \<Rightarrow> (u64 \<times> nat) list \<Rightarrow> 'w \<Rightarrow> 'client stream_handle \<times> 'w" where
  "run_reads e h [] w = (h, w)"
| "run_reads e h ((offset, sz) # rs) w =
     (case read_blocking e h offset sz w of (_, h', w') \<Rightarrow> run_reads e h' rs w')"

lemma run_reads_attempted:
  assumes "tail_attempted (sh_inner h)"
  shows "snd (run_reads e h rs w) = w"
  using assms
proof (induction rs arbitrary: h)
  case (Cons q rs)
  obtain offset sz where q: "q = (offset, sz)" by fastforce
  obtain r h' w' where rb: "read_blocking e h offset sz w = (r, h', w')"
    using prod_cases3 by blast
  have "\<not> need_materialize h offset"
    using Cons.prems by (simp add: need_materialize_def Let_def)
  then have "w' = w" and "tail_attempted (sh_inner h')"
    using read_blocking_world [OF rb] Cons.prems by auto
  then show ?case using Cons.IH [of h'] q rb by simp
qed simp

lemma run_reads_world:
  "snd (run_reads e h rs w) = w \<or>
   (\<exists>tc. sh_tail h = Some tc \<and>
      snd (run_reads e h rs w) = snd (env_send e (text_request (sh_driver h) (tail_sql tc)) w))"
proof (induction rs arbitrary: h)
  case (Cons q rs)
  obtain offset sz where q: "q = (offset, sz)" by fastforce
  obtain r h' w' where rb: "read_blocking e h offset sz w = (r, h', w')"
    using prod_cases3 by blast
  note world = read_blocking_world [OF rb]
  show ?case
  proof (cases "need_materialize h offset")
    case True
    then have "snd (run_reads e h' rs w') = w'"
      using world run_reads_attempted [of h' e rs w'] by simp
    then show ?thesis using world True q rb by auto
  next
    case False
    then show ?thesis using world Cons.IH [of h'] q rb by simp
  qed
qed simp

end
