(* ===== verification/Readme.thy ===== *)
theory Readme
  imports Driver
begin

text \<open>
  \<open>src/readme.rs\<close>: the Markdown document of a table, from five queries that may fail
  independently.

  \<open>serde_json\<close> is a parameter: a parser and the three accessors of \<open>Value\<close> that the code calls.
  A non-negative finite \<open>f64\<close> is a fraction \<open>(n, d)\<close>; \<open>f64_round\<close> rounds a quotient to 53
  significant bits, ties to even, which covers the conversions and divisions below (all results
  lie between \<open>2 ^ -64\<close> and \<open>2 ^ 64\<close>, so neither overflow nor subnormal numbers occur).  The
  fixed-point formats round the exact value, ties to even.
\<close>

record 'j json_api =
  js_from_str :: "string \<Rightarrow> 'j option"
  js_get :: "'j \<Rightarrow> string \<Rightarrow> 'j option"
  js_as_str :: "'j \<Rightarrow> string option"
  js_as_u64 :: "'j \<Rightarrow> u64 option"

section \<open>Floating point\<close>

type_synonym f64 = "int \<times> int"

function bit_len :: "int \<Rightarrow> int" where
  "bit_len n = (if n \<le> 0 then 0 else 1 + bit_len (n div 2))"
  by pat_completeness auto
termination
  by (relation "measure nat") auto

declare bit_len.simps [simp del]

definition round_div :: "int \<Rightarrow> int \<Rightarrow> int" where
  "round_div n d =
     (let q = n div d; r = n mod d
      in if d < 2 * r \<or> (2 * r = d \<and> odd q) then q + 1 else q)"

definition scaled_div :: "int \<Rightarrow> int \<Rightarrow> int \<Rightarrow> int \<times> int" where
  "scaled_div n d e = (if 0 \<le> e then (n, d * 2 ^ nat e) else (n * 2 ^ nat (- e), d))"

definition f64_round :: "int \<Rightarrow> int \<Rightarrow> f64" where
  "f64_round n d =
     (let e0 = bit_len n - bit_len d - 53;
          e = (case scaled_div n d e0 of (a, b) \<Rightarrow> if 2 ^ 53 \<le> a div b then e0 + 1 else e0);
          m = (case scaled_div n d e of (a, b) \<Rightarrow> round_div a b)
      in if 0 \<le> e then (m * 2 ^ nat e, 1) else (m, 2 ^ nat (- e)))"

definition f64_of_u64 :: "u64 \<Rightarrow> f64" where
  "f64_of_u64 x = f64_round (uint x) 1"

definition f64_div :: "f64 \<Rightarrow> f64 \<Rightarrow> f64" where
  "f64_div x y = f64_round (fst x * snd y) (snd x * fst y)"

definition pad_left :: "nat \<Rightarrow> string \<Rightarrow> string" where
  "pad_left k s = replicate (k - length s) (CHR ''0'') @ s"

definition fmt_fixed :: "nat \<Rightarrow> f64 \<Rightarrow> string" where
  "fmt_fixed k x =
     (let n = round_div (fst x * 10 ^ k) (snd x)
      in show_nat (nat (n div 10 ^ k)) @ ''.'' @ pad_left k (show_nat (nat (n mod 10 ^ k))))"

section \<open>Helpers of the renderer\<close>

definition json_to_u64 :: "'j json_api \<Rightarrow> 'j \<Rightarrow> u64 option" where
  "json_to_u64 j v =
     (case js_as_u64 j v of
        Some n \<Rightarrow> Some n
      | None \<Rightarrow> (case js_as_str j v of Some s \<Rightarrow> parse_u64 s | None \<Rightarrow> None))"

definition byte_units :: "string list" where
  "byte_units = [''B'', ''KiB'', ''MiB'', ''GiB'', ''TiB'', ''PiB'']"

function scale_bytes :: "f64 \<Rightarrow> nat \<Rightarrow> f64 \<times> nat" where
  "scale_bytes v i =
     (if 1024 * snd v \<le> fst v \<and> i + 1 < length byte_units
      then scale_bytes (f64_div v (1024, 1)) (i + 1)
      else (v, i))"
  by pat_completeness auto
termination
  by (relation "measure (\<lambda>(v, i). length byte_units - i)") auto

declare scale_bytes.simps [simp del]

definition human_bytes :: "u64 \<Rightarrow> string" where
  "human_bytes n =
     (case scale_bytes (f64_of_u64 n) 0 of (v, i) \<Rightarrow>
        if i = 0 then show_nat (unat n) @ '' '' @ byte_units ! 0
        else fmt_fixed 2 v @ '' '' @ byte_units ! i)"

definition opt_line :: "'a option \<Rightarrow> ('a \<Rightarrow> string) \<Rightarrow> string" where
  "opt_line x f = (case x of Some v \<Rightarrow> f v @ [NL] | None \<Rightarrow> [])"

definition js_field :: "'j json_api \<Rightarrow> 'j \<Rightarrow> string \<Rightarrow> ('j \<Rightarrow> 'a option) \<Rightarrow> 'a option" where
  "js_field j v k f = (case js_get j v k of Some x \<Rightarrow> f x | None \<Rightarrow> None)"

definition render_stats :: "'j json_api \<Rightarrow> string \<Rightarrow> string \<Rightarrow> string" where
  "render_stats j stats_json count_str =
     (let trimmed = str_trim stats_json;
          rows_line = ''- **rows**: '' @ count_str @ [NL]
      in if trimmed = [] then
           rows_line @ ''- **size on disk**: 0 (no active parts)'' @ [NL]
         else
           (case js_from_str j trimmed of
              None \<Rightarrow> rows_line
            | Some v \<Rightarrow>
               (let rows = js_field j v ''rows'' (json_to_u64 j);
                    disk = js_field j v ''bytes_on_disk'' (json_to_u64 j);
                    parts = js_field j v ''parts'' (json_to_u64 j);
                    parts_count = js_field j v ''partitions'' (json_to_u64 j)
                in rows_line @
                   opt_line disk (\<lambda>b. ''- **size on disk**: '' @ human_bytes b @ '' ('' @
                     show_nat (unat b) @ '')'') @
                   opt_line parts (\<lambda>p. ''- **active parts**: '' @ show_nat (unat p)) @
                   opt_line parts_count (\<lambda>p. ''- **partitions**: '' @ show_nat (unat p)) @
                   (case (rows, disk) of
                      (Some r, Some b) \<Rightarrow>
                        if 0 < r then
                          ''- **avg bytes/row**: '' @
                          fmt_fixed 1 (f64_div (f64_of_u64 b) (f64_of_u64 r)) @ [NL]
                        else []
                    | _ \<Rightarrow> []))))"

abbreviation PIPE :: char where "PIPE \<equiv> CHR 0x7C"
abbreviation BTK :: char where "BTK \<equiv> CHR 0x60"
abbreviation BSL :: char where "BSL \<equiv> CHR 0x5C"

definition escape_pipes :: "string \<Rightarrow> string" where
  "escape_pipes s = str_replace_char PIPE [BSL, PIPE] s"

definition column_row :: "string \<Rightarrow> string \<Rightarrow> string \<Rightarrow> string" where
  "column_row name ty comment =
     ''| '' @ [BTK] @ escape_pipes name @ [BTK] @ '' | '' @ [BTK] @ escape_pipes ty @ [BTK] @
     '' | '' @ str_replace_char NL '' '' (escape_pipes comment) @ '' |''"

definition js_str_or_empty :: "'j json_api \<Rightarrow> 'j \<Rightarrow> string \<Rightarrow> string" where
  "js_str_or_empty j v k = (case js_field j v k (js_as_str j) of Some s \<Rightarrow> s | None \<Rightarrow> [])"

definition render_column_line :: "'j json_api \<Rightarrow> string \<Rightarrow> string option" where
  "render_column_line j l =
     (let line = str_trim l
      in if line = [] then None
         else map_option (\<lambda>v. column_row (js_str_or_empty j v ''name'') (js_str_or_empty j v ''type'')
                                (js_str_or_empty j v ''comment'')) (js_from_str j line))"

definition render_columns :: "'j json_api \<Rightarrow> string \<Rightarrow> string" where
  "render_columns j jsonl =
     (let rows = List.map_filter (render_column_line j) (str_lines jsonl)
      in ''| Name | Type | Comment |'' @ [NL] @ ''|---|---|---|'' @ [NL] @
         concat (map (\<lambda>r. r @ [NL]) rows) @
         (if rows = [] then ''_(no columns)_'' @ [NL] else []))"

section \<open>The document\<close>

definition unavailable :: string where "unavailable = ''_(unavailable)_'' @ [NL]"

definition md_section :: "string \<Rightarrow> string \<Rightarrow> string" where
  "md_section title body = ''## '' @ title @ [NL, NL] @ body @ [NL]"

definition code_block :: "string \<Rightarrow> string \<Rightarrow> string" where
  "code_block lang s = ''```'' @ lang @ [NL] @ str_trim_end s @ [NL] @ ''```'' @ [NL]"

definition stats_body ::
  "'j json_api \<Rightarrow> query_error + string \<Rightarrow> query_error + string \<Rightarrow> string" where
  "stats_body j stats count =
     (case (stats, count) of
        (Inr s, Inr c) \<Rightarrow> render_stats j s (str_trim c)
      | (_, Inr c) \<Rightarrow>
          ''- **rows**: '' @ str_trim c @ [NL] @
          ''- **size on disk**: _(unavailable)_'' @ [NL] @
          ''- **parts**: _(unavailable)_'' @ [NL] @
          ''- **partitions**: _(unavailable)_'' @ [NL]
      | _ \<Rightarrow> unavailable)"

definition schema_body :: "query_error + string \<Rightarrow> string" where
  "schema_body schema = (case schema of Inr s \<Rightarrow> code_block ''sql'' s | Inl _ \<Rightarrow> unavailable)"

definition columns_body :: "'j json_api \<Rightarrow> query_error + string \<Rightarrow> string" where
  "columns_body j columns = (case columns of Inr c \<Rightarrow> render_columns j c | Inl _ \<Rightarrow> unavailable)"

definition sample_body :: "query_error + string \<Rightarrow> string" where
  "sample_body sample =
     (case sample of
        Inr s \<Rightarrow> if str_trim s \<noteq> [] then code_block ''jsonl'' s else ''_(empty)_'' @ [NL]
      | Inl _ \<Rightarrow> unavailable)"

definition examples_body :: "string \<Rightarrow> string \<Rightarrow> string" where
  "examples_body d t =
     ''Sequential scan over the whole table:'' @ [NL] @
     ''```bash'' @ [NL] @
     ''cat /<mountpoint>/db/'' @ d @ ''/'' @ t @ ''/all.tsv | head -n 100'' @ [NL] @
     ''```'' @ [NL, NL] @
     ''Inspect a single partition:'' @ [NL] @
     ''```bash'' @ [NL] @
     ''cat /<mountpoint>/db/'' @ d @ ''/'' @ t @ ''/<partition_id>.tsv'' @ [NL] @
     ''```'' @ [NL, NL]"

definition files_section :: string where
  "files_section =
     ''## Files'' @ [NL, NL] @
     ''| File | Description |'' @ [NL] @
     ''|---|---|'' @ [NL] @
     ''| `.schema` | `SHOW CREATE TABLE` output |'' @ [NL] @
     ''| `README.md` | This file (regenerated on open) |'' @ [NL] @
     ''| `all.tsv` | Full table stream, TSV with header |'' @ [NL] @
     ''| `<partition>.tsv` | Single partition stream |'' @ [NL]"

definition readme_text ::
  "'j json_api \<Rightarrow> string \<Rightarrow> string \<Rightarrow> query_error + string \<Rightarrow> query_error + string \<Rightarrow>
   query_error + string \<Rightarrow> query_error + string \<Rightarrow> query_error + string \<Rightarrow> string" where
  "readme_text j d t schema stats columns count sample =
     ''# `'' @ d @ ''`.`'' @ t @ ''`'' @ [NL, NL] @
     md_section ''Stats'' (stats_body j stats count) @
     md_section ''Schema'' (schema_body schema) @
     md_section ''Columns'' (columns_body j columns) @
     md_section ''Sample (5 rows)'' (sample_body sample) @
     md_section ''Example queries'' (examples_body d t) @
     files_section"

text \<open>\<open>tokio::join!\<close> polls its futures in order, so the requests go out in this order.\<close>

definition render ::
  "'w env \<Rightarrow> 'j json_api \<Rightarrow> 'client http_driver \<Rightarrow> string \<Rightarrow> string \<Rightarrow> 'w \<Rightarrow> string \<times> 'w" where
  "render e j drv d t w0 =
     (case query_text e drv (sql_describe d t) w0 of (schema, w1) \<Rightarrow>
      case query_text e drv (sql_stats d t) w1 of (stats, w2) \<Rightarrow>
      case query_text e drv (sql_columns d t) w2 of (columns, w3) \<Rightarrow>
      case query_text e drv (sql_count d t) w3 of (count, w4) \<Rightarrow>
      case query_text e drv (sql_sample d t) w4 of (sample, w5) \<Rightarrow>
        (readme_text j d t schema stats columns count sample, w5))"

section \<open>The columns table\<close>

text \<open>
  The reader of a Markdown table row: a vertical bar separates cells unless a backslash stands
  before it.
\<close>

fun cons_cell :: "char \<Rightarrow> string list \<Rightarrow> string list" where
  "cons_cell c [] = [[c]]"
| "cons_cell c (p # ps) = (c # p) # ps"

fun md_cells :: "string \<Rightarrow> string list" where
  "md_cells [] = [[]]"
| "md_cells [c] = (if c = PIPE then [[], []] else [[c]])"
| "md_cells (c # d # s) =
     (if c = PIPE then [] # md_cells (d # s)
      else if c = BSL \<and> d = PIPE then cons_cell PIPE (md_cells s)
      else cons_cell c (md_cells (d # s)))"

lemma md_cells_ne [simp]: "md_cells s \<noteq> []"
  by (induction s rule: md_cells.induct) (auto elim: cons_cell.elims)

fun prepend_cell :: "string \<Rightarrow> string list \<Rightarrow> string list" where
  "prepend_cell s [] = [s]"
| "prepend_cell s (p # ps) = (s @ p) # ps"

lemma prepend_cell_Nil [simp]: "ps \<noteq> [] \<Longrightarrow> prepend_cell [] ps = ps"
  by (cases ps) auto

lemma cons_prepend: "ps \<noteq> [] \<Longrightarrow> cons_cell c (prepend_cell s ps) = prepend_cell (c # s) ps"
  by (cases ps) auto

lemma md_cells_Cons:
  assumes "c \<noteq> PIPE" and "c = BSL \<longrightarrow> s = [] \<or> hd s \<noteq> PIPE"
  shows "md_cells (c # s) = cons_cell c (md_cells s)"
  using assms by (cases s) auto

lemma md_cells_escape:
  assumes "r = [] \<or> hd r \<noteq> PIPE"
  shows "md_cells (escape_pipes s @ r) = prepend_cell s (md_cells r)"
proof (induction s)
  case (Cons c s)
  show ?case
  proof (cases "c = PIPE")
    case True
    then show ?thesis using Cons by (simp add: escape_pipes_def cons_prepend)
  next
    case False
    have "escape_pipes s @ r = [] \<or> hd (escape_pipes s @ r) \<noteq> PIPE"
      using assms by (cases s) (auto simp: escape_pipes_def)
    with False have "md_cells (c # (escape_pipes s @ r)) = cons_cell c (md_cells (escape_pipes s @ r))"
      by (intro md_cells_Cons) auto
    with False Cons show ?thesis by (simp add: escape_pipes_def cons_prepend)
  qed
qed (simp add: escape_pipes_def)

definition one_line :: "string \<Rightarrow> string" where
  "one_line s = str_replace_char NL '' '' s"

lemma escape_one_line: "str_replace_char NL '' '' (escape_pipes s) = escape_pipes (one_line s)"
  by (induction s) (auto simp: escape_pipes_def one_line_def)

lemma column_row_cells:
  "md_cells (column_row name ty comment) =
     [[], '' '' @ [BTK] @ name @ [BTK] @ '' '', '' '' @ [BTK] @ ty @ [BTK] @ '' '',
      '' '' @ one_line comment @ '' '', []]"
  by (simp add: column_row_def escape_one_line md_cells_escape md_cells_Cons)

lemma column_row_lines:
  "NL \<in> set (column_row name ty comment) \<longleftrightarrow> NL \<in> set name \<or> NL \<in> set ty"
proof -
  have esc: "NL \<in> set (escape_pipes s) \<longleftrightarrow> NL \<in> set s" for s
    by (induction s) (auto simp: escape_pipes_def)
  have "NL \<notin> set (one_line s)" for s
    by (induction s) (auto simp: one_line_def)
  then show ?thesis
    using esc by (simp add: column_row_def escape_one_line)
qed

end
