(* ===== verification/Fs.thy ===== *)
theory Fs
  imports Cache Inode Resolver StreamHandle Readme
begin

text \<open>
  \<open>ClickFs\<close> of \<open>src/fs.rs\<close>: the state of the mounted file system and its handlers, one definition
  per method of \<open>fuser::Filesystem\<close> that the code implements.

  A handler takes the state and the world and returns its reply and both updated.  Replies are
  values: \<open>Inl\<close> the errno of \<open>reply.error\<close>, \<open>Inr\<close> what the success reply carries.  \<open>fuser\<close> calls
  the handlers one at a time (\<open>&mut self\<close>), so they do not interleave.  Where a handler allocates
  inodes its result is an \<open>option\<close>, with \<open>None\<close> for a probe that does not return.
\<close>

section \<open>State\<close>

record ('w, 'j) ext =
  x_env :: "'w env"
  x_json :: "'j json_api"
  x_hash :: "component list \<Rightarrow> u64"

datatype 'client file_handle = HStream "'client stream_handle" | HSpecial bytes

record 'client clickfs =
  f_driver :: "'client http_driver"
  inodes :: inode_table
  fh_counter :: u64
  handles :: "(u64, 'client file_handle) fmap"
  uid :: u32
  gid :: u32
  start_time :: nat
  f_tail_cfg :: tail_config
  db_cache :: "(unit, string list) ttl_cache"
  table_cache :: "(string, string list) ttl_cache"
  part_cache :: "(string \<times> string, string list) ttl_cache"

text \<open>Two seconds in nanoseconds.\<close>

definition cache_ttl :: nat where "cache_ttl = 2000 * 1000000"

definition clickfs_new ::
  "'client http_driver \<Rightarrow> tail_config \<Rightarrow> u32 \<Rightarrow> u32 \<Rightarrow> nat \<Rightarrow> 'client clickfs" where
  "clickfs_new d cfg u g now =
     \<lparr>f_driver = d, inodes = inode_new, fh_counter = 1, handles = fmempty, uid = u, gid = g,
      start_time = now, f_tail_cfg = cfg, db_cache = cache_new cache_ttl,
      table_cache = cache_new cache_ttl, part_cache = cache_new cache_ttl\<rparr>"

section \<open>Attributes\<close>

datatype file_type = Directory | RegularFile

record file_attr =
  fa_ino :: u64
  fa_size :: u64
  fa_blocks :: u64
  fa_time :: nat
  fa_kind :: file_type
  fa_perm :: u16
  fa_nlink :: u32
  fa_uid :: u32
  fa_gid :: u32
  fa_rdev :: u32
  fa_flags :: u32
  fa_blksize :: u32

definition BLOCK_SIZE :: u32 where "BLOCK_SIZE = 4096"

text \<open>
  \<open>fa_time\<close> is the value of all four times; \<open>div_ceil\<close> is a quotient, plus one for a remainder.
  The permission bits are \<open>0o555\<close> and \<open>0o444\<close>.
\<close>

definition div_ceil :: "u64 \<Rightarrow> u64 \<Rightarrow> u64" where
  "div_ceil a b = (if 0 < a mod b then a div b + 1 else a div b)"

definition dir_attr :: "'client clickfs \<Rightarrow> u64 \<Rightarrow> file_attr" where
  "dir_attr fs i =
     \<lparr>fa_ino = i, fa_size = 0, fa_blocks = 0, fa_time = start_time fs, fa_kind = Directory,
      fa_perm = 365, fa_nlink = 2, fa_uid = uid fs, fa_gid = gid fs, fa_rdev = 0, fa_flags = 0,
      fa_blksize = BLOCK_SIZE\<rparr>"

definition file_attr_of :: "'client clickfs \<Rightarrow> u64 \<Rightarrow> u64 \<Rightarrow> file_attr" where
  "file_attr_of fs i sz =
     \<lparr>fa_ino = i, fa_size = sz, fa_blocks = div_ceil sz (ucast BLOCK_SIZE),
      fa_time = start_time fs, fa_kind = RegularFile,
      fa_perm = 292, fa_nlink = 1, fa_uid = uid fs, fa_gid = gid fs, fa_rdev = 0, fa_flags = 0,
      fa_blksize = BLOCK_SIZE\<rparr>"

definition attr_for_plan :: "'client clickfs \<Rightarrow> u64 \<Rightarrow> query_plan \<Rightarrow> file_attr" where
  "attr_for_plan fs i p =
     (if is_dir p then dir_attr fs i
      else if is_special_file p then file_attr_of fs i 4096
      else file_attr_of fs i (u64_max div 2))"

definition path_of :: "'client clickfs \<Rightarrow> u64 \<Rightarrow> clickfs_error + string" where
  "path_of fs i = (case inode_lookup (inodes fs) i of Some p \<Rightarrow> Ok p | None \<Rightarrow> Err NotFound)"

section \<open>Listings\<close>

definition nonempty_lines :: "string \<Rightarrow> string list" where
  "nonempty_lines body = filter (\<lambda>s. s \<noteq> []) (str_lines body)"

text \<open>
  The three listings have one shape: the cache, else a query whose answer is parsed and stored.
  \<open>fetch_cached\<close> is that shape over the cache that a getter and a setter name.  The clock is read first;
  the code reads it only when the cache has an entry for the key.
\<close>

definition fetch_cached ::
  "('client clickfs \<Rightarrow> ('k, string list) ttl_cache) \<Rightarrow>
   (('k, string list) ttl_cache \<Rightarrow> 'client clickfs \<Rightarrow> 'client clickfs) \<Rightarrow>
   (string \<Rightarrow> string list) \<Rightarrow> 'w env \<Rightarrow> 'k \<Rightarrow> string \<Rightarrow> 'client clickfs \<Rightarrow> 'w \<Rightarrow>
   (clickfs_error + string list) \<times> 'client clickfs \<times> 'w" where
  "fetch_cached sel upd parse e k sql fs w =
     (case env_now e w of (t, w1) \<Rightarrow>
        case cache_get (sel fs) k t of
          (Some v, c) \<Rightarrow> (Ok v, upd c fs, w1)
        | (None, c) \<Rightarrow>
           (let fs1 = upd c fs in
            case query_text e (f_driver fs) sql w1 of
              (Inl err, w2) \<Rightarrow> (Err (Query err), fs1, w2)
            | (Inr body, w2) \<Rightarrow>
               (case env_now e w2 of (t2, w3) \<Rightarrow>
                  (let v = parse body
                   in (Ok v, upd (cache_insert (sel fs1) k v t2) fs1, w3)))))"

definition fetch_databases ::
  "'w env \<Rightarrow> 'client clickfs \<Rightarrow> 'w \<Rightarrow> (clickfs_error + string list) \<times> 'client clickfs \<times> 'w" where
  "fetch_databases e =
     fetch_cached db_cache (\<lambda>c fs. fs\<lparr>db_cache := c\<rparr>) nonempty_lines e () sql_list_databases"

definition fetch_tables ::
  "'w env \<Rightarrow> string \<Rightarrow> 'client clickfs \<Rightarrow> 'w \<Rightarrow>
   (clickfs_error + string list) \<times> 'client clickfs \<times> 'w" where
  "fetch_tables e d =
     fetch_cached table_cache (\<lambda>c fs. fs\<lparr>table_cache := c\<rparr>) nonempty_lines e d (sql_list_tables d)"

definition partition_lines :: "string \<Rightarrow> string list" where
  "partition_lines body = filter (\<lambda>s. s \<noteq> ''all'') (nonempty_lines body)"

definition fetch_partitions ::
  "'w env \<Rightarrow> string \<Rightarrow> string \<Rightarrow> 'client clickfs \<Rightarrow> 'w \<Rightarrow>
   (clickfs_error + string list) \<times> 'client clickfs \<times> 'w" where
  "fetch_partitions e d t =
     fetch_cached part_cache (\<lambda>c fs. fs\<lparr>part_cache := c\<rparr>) partition_lines e (d, t)
       (sql_list_partitions d t)"

definition fetch_describe ::
  "'w env \<Rightarrow> string \<Rightarrow> string \<Rightarrow> 'client clickfs \<Rightarrow> 'w \<Rightarrow> (clickfs_error + string) \<times> 'w" where
  "fetch_describe e d t fs w =
     (case query_text e (f_driver fs) (sql_describe d t) w of
        (Inl err, w1) \<Rightarrow> (Err (Query err), w1)
      | (Inr body, w1) \<Rightarrow> (Ok body, w1))"

definition tail_order_of :: "'j json_api \<Rightarrow> query_error + string \<Rightarrow> string" where
  "tail_order_of j res =
     (case res of
        Inl _ \<Rightarrow> ''tuple()''
      | Inr body \<Rightarrow>
         (let line = (case str_lines body of l # _ \<Rightarrow> l | [] \<Rightarrow> [])
          in case js_from_str j line of
               None \<Rightarrow> ''tuple()''
             | Some v \<Rightarrow>
                (let pk = js_str_or_empty j v ''primary_key'';
                     sk = js_str_or_empty j v ''sorting_key''
                 in if str_trim pk \<noteq> [] then pk
                    else if str_trim sk \<noteq> [] then sk
                    else ''tuple()'')))"

definition fetch_tail_order_expr ::
  "('w, 'j) ext \<Rightarrow> string \<Rightarrow> string \<Rightarrow> 'client clickfs \<Rightarrow> 'w \<Rightarrow> string \<times> 'w" where
  "fetch_tail_order_expr x d t fs w =
     (case query_text (x_env x) (f_driver fs) (sql_table_pk d t) w of
        (res, w1) \<Rightarrow> (tail_order_of (x_json x) res, w1))"

section \<open>Existence\<close>

definition check_listed ::
  "string \<Rightarrow> (clickfs_error + string list) \<times> 'client clickfs \<times> 'w \<Rightarrow>
   (clickfs_error + unit) \<times> 'client clickfs \<times> 'w" where
  "check_listed n r =
     (case r of
        (Inl err, fs, w) \<Rightarrow> (Err err, fs, w)
      | (Inr names, fs, w) \<Rightarrow> (if n \<in> set names then Ok () else Err NotFound, fs, w))"

definition verify_plan_exists ::
  "'w env \<Rightarrow> query_plan \<Rightarrow> 'client clickfs \<Rightarrow> 'w \<Rightarrow>
   (clickfs_error + unit) \<times> 'client clickfs \<times> 'w" where
  "verify_plan_exists e p fs w =
     (case (p_kind p, p_db p, p_table p) of
        (Root, _, _) \<Rightarrow> (Ok (), fs, w)
      | (DbNamespace, _, _) \<Rightarrow> (Ok (), fs, w)
      | (ListTables, Some d, _) \<Rightarrow> check_listed d (fetch_databases e fs w)
      | (ListPartitions, Some d, Some t) \<Rightarrow> check_listed t (fetch_tables e d fs w)
      | (DescribeTable, Some d, Some t) \<Rightarrow> check_listed t (fetch_tables e d fs w)
      | (Readme, Some d, Some t) \<Rightarrow> check_listed t (fetch_tables e d fs w)
      | (StreamAll, Some d, Some t) \<Rightarrow> check_listed t (fetch_tables e d fs w)
      | (StreamPartition s, Some d, Some t) \<Rightarrow> check_listed s (fetch_partitions e d t fs w)
      | _ \<Rightarrow> (Err NotFound, fs, w))"

section \<open>Lookup and attributes\<close>

definition fs_lookup ::
  "('w, 'j) ext \<Rightarrow> u64 \<Rightarrow> string \<Rightarrow> 'client clickfs \<Rightarrow> 'w \<Rightarrow>
   ((errno + file_attr) \<times> 'client clickfs \<times> 'w) option" where
  "fs_lookup x parent name fs w =
     (case path_of fs parent of
        Inl err \<Rightarrow> Some (Err (to_errno err), fs, w)
      | Inr parent_path \<Rightarrow>
        (case to_str name of
           None \<Rightarrow> Some (Err ENOENT, fs, w)
         | Some name_str \<Rightarrow>
           (let child = path_join parent_path name_str in
            case resolve child of
              Inl err \<Rightarrow> Some (Err (to_errno err), fs, w)
            | Inr p \<Rightarrow>
              (case verify_plan_exists (x_env x) p fs w of
                 (Inl err, fs1, w1) \<Rightarrow> Some (Err (to_errno err), fs1, w1)
               | (Inr _, fs1, w1) \<Rightarrow>
                 (case inode_allocate (x_hash x) child (inodes fs1) of
                    None \<Rightarrow> None
                  | Some (i, t) \<Rightarrow> Some (Ok (attr_for_plan fs1 i p), fs1\<lparr>inodes := t\<rparr>, w1))))))"

definition fs_getattr :: "u64 \<Rightarrow> 'client clickfs \<Rightarrow> errno + file_attr" where
  "fs_getattr i fs =
     (if i = INO_ROOT then Ok (dir_attr fs INO_ROOT)
      else
        (case path_of fs i of
           Inl err \<Rightarrow> Err (to_errno err)
         | Inr path \<Rightarrow>
           (case resolve path of
              Inr p \<Rightarrow> Ok (attr_for_plan fs i p)
            | Inl err \<Rightarrow> Err (to_errno err))))"

section \<open>Directories\<close>

record dir_entry =
  de_ino :: u64
  de_offset :: i64
  de_kind :: file_type
  de_name :: string

definition dots :: "(file_type \<times> string) list" where
  "dots = [(Directory, ''.''), (Directory, ''..'')]"

definition table_entries :: "(file_type \<times> string) list" where
  "table_entries = [(RegularFile, ''.schema''), (RegularFile, ''README.md''), (RegularFile, ''all.tsv'')]"

definition list_dirs ::
  "(clickfs_error + string list) \<times> 'client clickfs \<times> 'w \<Rightarrow>
   (clickfs_error + (file_type \<times> string) list) \<times> 'client clickfs \<times> 'w" where
  "list_dirs r =
     (case r of
        (Inl err, fs, w) \<Rightarrow> (Err err, fs, w)
      | (Inr names, fs, w) \<Rightarrow> (Ok (dots @ map (Pair Directory) names), fs, w))"

definition dir_entries ::
  "'w env \<Rightarrow> query_plan \<Rightarrow> 'client clickfs \<Rightarrow> 'w \<Rightarrow>
   (clickfs_error + (file_type \<times> string) list) \<times> 'client clickfs \<times> 'w" where
  "dir_entries e p fs w =
     (case p_kind p of
        Root \<Rightarrow> (Ok (dots @ [(Directory, ''db'')]), fs, w)
      | DbNamespace \<Rightarrow> list_dirs (fetch_databases e fs w)
      | ListTables \<Rightarrow> list_dirs (fetch_tables e (the (p_db p)) fs w)
      | ListPartitions \<Rightarrow>
         (case fetch_partitions e (the (p_db p)) (the (p_table p)) fs w of
            (Inr parts, fs1, w1) \<Rightarrow>
              (Ok (dots @ table_entries @ map (\<lambda>s. (RegularFile, s @ ''.tsv'')) parts), fs1, w1)
          | (Inl _, fs1, w1) \<Rightarrow> (Ok (dots @ table_entries), fs1, w1))
      | _ \<Rightarrow> (Err NotADir, fs, w))"

text \<open>
  The loop that allocates a child's inode and adds it to the reply.  \<open>full\<close> stands for
  \<open>ReplyDirectory::add\<close>: given the entries added so far it says whether the next one no longer
  fits, in which case it is not added.
\<close>

fun emit_entries ::
  "(component list \<Rightarrow> u64) \<Rightarrow> (dir_entry list \<Rightarrow> dir_entry \<Rightarrow> bool) \<Rightarrow> u64 \<Rightarrow> string \<Rightarrow>
   nat \<Rightarrow> (file_type \<times> string) list \<Rightarrow> dir_entry list \<Rightarrow> inode_table \<Rightarrow>
   (dir_entry list \<times> inode_table) option" where
  "emit_entries h full dir path i [] acc t = Some (acc, t)"
| "emit_entries h full dir path i ((k, n) # es) acc t =
     (case (if n = ''.'' \<or> n = ''..'' then Some (dir, t)
            else inode_allocate h (path_join path n) t) of
        None \<Rightarrow> None
      | Some (child, t1) \<Rightarrow>
         (let d = \<lparr>de_ino = child, de_offset = word_of_nat (i + 1), de_kind = k, de_name = n\<rparr>
          in if full acc d then Some (acc, t1)
             else emit_entries h full dir path (i + 1) es (acc @ [d]) t1))"

definition fs_readdir ::
  "('w, 'j) ext \<Rightarrow> (dir_entry list \<Rightarrow> dir_entry \<Rightarrow> bool) \<Rightarrow> u64 \<Rightarrow> i64 \<Rightarrow> 'client clickfs \<Rightarrow> 'w \<Rightarrow>
   ((errno + dir_entry list) \<times> 'client clickfs \<times> 'w) option" where
  "fs_readdir x full i offset fs w =
     (case path_of fs i of
        Inl err \<Rightarrow> Some (Err (to_errno err), fs, w)
      | Inr path \<Rightarrow>
        (case resolve path of
           Inl err \<Rightarrow> Some (Err (to_errno err), fs, w)
         | Inr p \<Rightarrow>
           (case dir_entries (x_env x) p fs w of
              (Inl err, fs1, w1) \<Rightarrow> Some (Err (to_errno err), fs1, w1)
            | (Inr es, fs1, w1) \<Rightarrow>
              (case emit_entries (x_hash x) full i path (unat offset) (drop (unat offset) es) []
                      (inodes fs1) of
                 None \<Rightarrow> None
               | Some (out, t) \<Rightarrow> Some (Ok out, fs1\<lparr>inodes := t\<rparr>, w1)))))"

section \<open>Open\<close>

definition O_ACCMODE :: i32 where "O_ACCMODE = 3"
definition O_RDONLY :: i32 where "O_RDONLY = 0"

definition open_stream ::
  "('w, 'j) ext \<Rightarrow> string \<Rightarrow> string \<Rightarrow> string option \<Rightarrow> string \<Rightarrow> 'client clickfs \<Rightarrow> 'w \<Rightarrow>
   'client file_handle \<times> 'w" where
  "open_stream x d t part sql fs w =
     (if tail_enabled (f_tail_cfg fs) then
        (case fetch_tail_order_expr x d t fs w of (order_expr, w1) \<Rightarrow>
           (let tail = \<lparr>tc_db = d, tc_tbl = t, tc_order_expr = order_expr, tc_partition = part,
                        tc_cfg = f_tail_cfg fs\<rparr>
            in apfst HStream (stream_spawn (x_env x) (f_driver fs) sql (Some tail) w1)))
      else apfst HStream (stream_spawn (x_env x) (f_driver fs) sql None w))"

definition open_handle ::
  "('w, 'j) ext \<Rightarrow> query_plan \<Rightarrow> 'client clickfs \<Rightarrow> 'w \<Rightarrow> (errno + 'client file_handle) \<times> 'w" where
  "open_handle x p fs w =
     (let d = the (p_db p); t = the (p_table p) in
      case p_kind p of
        DescribeTable \<Rightarrow>
          (case fetch_describe (x_env x) d t fs w of
             (Inr text, w1) \<Rightarrow> (Ok (HSpecial text), w1)
           | (Inl err, w1) \<Rightarrow> (Err (to_errno err), w1))
      | Readme \<Rightarrow>
          (case render (x_env x) (x_json x) (f_driver fs) d t w of
             (text, w1) \<Rightarrow> (Ok (HSpecial text), w1))
      | StreamAll \<Rightarrow> apfst Ok (open_stream x d t None (sql_stream_all d t) fs w)
      | StreamPartition s \<Rightarrow> apfst Ok (open_stream x d t (Some s) (sql_stream_partition d t s) fs w)
      | _ \<Rightarrow> (Err EISDIR, w))"

definition fs_open ::
  "('w, 'j) ext \<Rightarrow> u64 \<Rightarrow> i32 \<Rightarrow> 'client clickfs \<Rightarrow> 'w \<Rightarrow> (errno + u64) \<times> 'client clickfs \<times> 'w" where
  "fs_open x i flags fs w =
     (if and flags O_ACCMODE \<noteq> O_RDONLY then (Err EROFS, fs, w)
      else
        (case path_of fs i of
           Inl err \<Rightarrow> (Err (to_errno err), fs, w)
         | Inr path \<Rightarrow>
           (case resolve path of
              Inl err \<Rightarrow> (Err (to_errno err), fs, w)
            | Inr p \<Rightarrow>
              (let fh_id = fh_counter fs;
                   fs1 = fs\<lparr>fh_counter := fh_counter fs + 1\<rparr>
               in case open_handle x p fs1 w of
                    (Inl err, w1) \<Rightarrow> (Err err, fs1, w1)
                  | (Inr handle, w1) \<Rightarrow> (Ok fh_id, fs1\<lparr>handles := fmupd fh_id handle (handles fs1)\<rparr>, w1)))))"

section \<open>Read and release\<close>

definition special_read :: "bytes \<Rightarrow> i64 \<Rightarrow> nat \<Rightarrow> bytes" where
  "special_read buf offset sz =
     (let off = unat (i64_max0 offset) in
      if length buf \<le> off then []
      else (let e = min (off + sz) (length buf) in take (e - off) (drop off buf)))"

definition fs_read ::
  "'w env \<Rightarrow> u64 \<Rightarrow> i64 \<Rightarrow> u32 \<Rightarrow> 'client clickfs \<Rightarrow> 'w \<Rightarrow> (errno + bytes) \<times> 'client clickfs \<times> 'w" where
  "fs_read e fh offset sz fs w =
     (case fmlookup (handles fs) fh of
        None \<Rightarrow> (Err EBADF, fs, w)
      | Some (HSpecial buf) \<Rightarrow> (Ok (special_read buf offset (unat sz)), fs, w)
      | Some (HStream s) \<Rightarrow>
         (case read_blocking e s (i64_max0 offset) (unat sz) w of
            (r, s', w1) \<Rightarrow>
              ((case r of Inr buf \<Rightarrow> Ok buf | Inl err \<Rightarrow> Err (to_errno err)),
               fs\<lparr>handles := fmupd fh (HStream s') (handles fs)\<rparr>, w1)))"

text \<open>Removing a stream drops it, as the last reference: it is cancelled and its query killed.\<close>

definition fs_release :: "'w env \<Rightarrow> u64 \<Rightarrow> 'client clickfs \<Rightarrow> 'w \<Rightarrow> 'client clickfs \<times> 'w" where
  "fs_release e fh fs w =
     (fs\<lparr>handles := fmdrop fh (handles fs)\<rparr>,
      (case fmlookup (handles fs) fh of Some (HStream s) \<Rightarrow> stream_drop e s w | _ \<Rightarrow> w))"

section \<open>Read-only stubs and statistics\<close>

text \<open>
  The eight operations that the code stubs with EROFS.  Other mutating requests (\<open>symlink\<close>, \<open>link\<close>,
  \<open>fallocate\<close>, extended attributes) are not in \<open>fs.rs\<close> and get the default replies of \<open>fuser\<close>.
\<close>

datatype mutation =
    Setattr u64
  | Mknod u64 string
  | Mkdir u64 string
  | Unlink u64 string
  | Rmdir u64 string
  | Rename u64 string u64 string
  | Create u64 string
  | Write u64 u64 i64 bytes

definition erofs_stub :: "mutation \<Rightarrow> errno + unit" where
  "erofs_stub m = Err EROFS"

record statfs_reply =
  st_blocks :: u64
  st_bfree :: u64
  st_bavail :: u64
  st_files :: u64
  st_ffree :: u64
  st_bsize :: u32
  st_namelen :: u32
  st_frsize :: u32

definition PSEUDO_BLOCKS :: u64 where "PSEUDO_BLOCKS = push_bit 38 1"
definition PSEUDO_FILES :: u64 where "PSEUDO_FILES = push_bit 32 1"

definition fs_statfs :: "'client clickfs \<Rightarrow> statfs_reply" where
  "fs_statfs fs =
     (let used_files = word_of_nat (fcard (fmdom (handles fs))) + 1024
      in \<lparr>st_blocks = PSEUDO_BLOCKS, st_bfree = PSEUDO_BLOCKS, st_bavail = PSEUDO_BLOCKS,
          st_files = PSEUDO_FILES, st_ffree = sat_sub PSEUDO_FILES used_files,
          st_bsize = BLOCK_SIZE, st_namelen = 255, st_frsize = BLOCK_SIZE\<rparr>)"

section \<open>Requests\<close>

text \<open>One request of the kernel and its reply.\<close>

datatype request =
    ReqLookup u64 string
  | ReqGetattr u64
  | ReqReaddir u64 i64
  | ReqOpen u64 i32
  | ReqRead u64 i64 u32
  | ReqRelease u64
  | ReqStatfs
  | ReqMutate mutation

datatype reply =
    RepEntry "errno + nat \<times> file_attr \<times> u64"
  | RepAttr "errno + nat \<times> file_attr"
  | RepDir "errno + dir_entry list"
  | RepOpen "errno + u64 \<times> u32"
  | RepData "errno + bytes"
  | RepEmpty "errno + unit"
  | RepStatfs statfs_reply

text \<open>
  The constant parts of the replies: the time (one second, in nanoseconds) for which the kernel may
  keep an entry or attributes, the generation 0, and direct I/O for opened files.
\<close>

definition TTL :: nat where "TTL = 1000000000"

definition FOPEN_DIRECT_IO :: u32 where "FOPEN_DIRECT_IO = 1"

definition entry_reply :: "errno + file_attr \<Rightarrow> reply" where
  "entry_reply r = RepEntry (map_sum id (\<lambda>a. (TTL, a, 0)) r)"

definition attr_reply :: "errno + file_attr \<Rightarrow> reply" where
  "attr_reply r = RepAttr (map_sum id (\<lambda>a. (TTL, a)) r)"

definition open_reply :: "errno + u64 \<Rightarrow> reply" where
  "open_reply r = RepOpen (map_sum id (\<lambda>fh. (fh, FOPEN_DIRECT_IO)) r)"

type_synonym ('client, 'w) fs_result = "(reply \<times> 'client clickfs \<times> 'w) option"

fun fs_handle ::
  "('w, 'j) ext \<Rightarrow> (dir_entry list \<Rightarrow> dir_entry \<Rightarrow> bool) \<Rightarrow> request \<Rightarrow> 'client clickfs \<Rightarrow> 'w \<Rightarrow>
   ('client, 'w) fs_result" where
  "fs_handle x full (ReqLookup parent name) fs w =
     map_option (apfst entry_reply) (fs_lookup x parent name fs w)"
| "fs_handle x full (ReqGetattr i) fs w = Some (attr_reply (fs_getattr i fs), fs, w)"
| "fs_handle x full (ReqReaddir i offset) fs w =
     map_option (apfst RepDir) (fs_readdir x full i offset fs w)"
| "fs_handle x full (ReqOpen i flags) fs w = Some (apfst open_reply (fs_open x i flags fs w))"
| "fs_handle x full (ReqRead fh offset sz) fs w =
     Some (apfst RepData (fs_read (x_env x) fh offset sz fs w))"
| "fs_handle x full (ReqRelease fh) fs w = Some (RepEmpty (Ok ()), fs_release (x_env x) fh fs w)"
| "fs_handle x full ReqStatfs fs w = Some (RepStatfs (fs_statfs fs), fs, w)"
| "fs_handle x full (ReqMutate m) fs w = Some (RepEmpty (erofs_stub m), fs, w)"

text \<open>A session: the requests in the order in which \<open>fuser\<close> dispatches them.\<close>

fun fs_run ::
  "('w, 'j) ext \<Rightarrow> (dir_entry list \<Rightarrow> dir_entry \<Rightarrow> bool) \<Rightarrow> request list \<Rightarrow> 'client clickfs \<Rightarrow> 'w \<Rightarrow>
   (reply list \<times> 'client clickfs \<times> 'w) option" where
  "fs_run x full [] fs w = Some ([], fs, w)"
| "fs_run x full (r # rs) fs w =
     (case fs_handle x full r fs w of
        None \<Rightarrow> None
      | Some (rep, fs1, w1) \<Rightarrow> map_option (apfst (Cons rep)) (fs_run x full rs fs1 w1))"

end
