(* ===== verification/FsInv.thy ===== *)
theory FsInv
  imports Fs
begin

text \<open>
  What every handler of \<open>ClickFs\<close> keeps: the state invariant \<open>fs_inv\<close>, and any predicate of the
  outside world that the program's own kinds of request keep (locale \<open>confined\<close>).  Interpreted on
  a world that logs its requests, the latter says which requests a session can send at all.
\<close>

section \<open>What may be sent\<close>

inductive allowed_sql :: "string \<Rightarrow> bool" where
  "allowed_sql sql_list_databases"
| "valid_db_or_table d \<Longrightarrow> allowed_sql (sql_list_tables d)"
| "valid_db_or_table d \<Longrightarrow> valid_db_or_table t \<Longrightarrow> allowed_sql (sql_list_partitions d t)"
| "valid_db_or_table d \<Longrightarrow> valid_db_or_table t \<Longrightarrow> allowed_sql (sql_describe d t)"
| "valid_db_or_table d \<Longrightarrow> valid_db_or_table t \<Longrightarrow> allowed_sql (sql_stats d t)"
| "valid_db_or_table d \<Longrightarrow> valid_db_or_table t \<Longrightarrow> allowed_sql (sql_columns d t)"
| "valid_db_or_table d \<Longrightarrow> valid_db_or_table t \<Longrightarrow> allowed_sql (sql_count d t)"
| "valid_db_or_table d \<Longrightarrow> valid_db_or_table t \<Longrightarrow> allowed_sql (sql_sample d t)"
| "valid_db_or_table d \<Longrightarrow> valid_db_or_table t \<Longrightarrow> allowed_sql (sql_table_pk d t)"
| "valid_db_or_table d \<Longrightarrow> valid_db_or_table t \<Longrightarrow> allowed_sql (sql_stream_all d t)"
| "valid_db_or_table d \<Longrightarrow> valid_db_or_table t \<Longrightarrow> valid_identifier s \<Longrightarrow>
     allowed_sql (sql_stream_partition d t s)"
| "valid_db_or_table d \<Longrightarrow> valid_db_or_table t \<Longrightarrow> pred_option valid_identifier part \<Longrightarrow>
     allowed_sql (sql_select_tail d t ord part n)"

definition same_server :: "'client http_driver \<Rightarrow> http_request \<Rightarrow> bool" where
  "same_server d rq \<longleftrightarrow>
     rq_url rq = base_url d \<and> rq_user rq = user d \<and> rq_password rq = password d"

definition safe_request :: "'client http_driver \<Rightarrow> http_request \<Rightarrow> bool" where
  "safe_request d rq \<longleftrightarrow>
     same_server d rq
   \<and> ((\<exists>sql s. allowed_sql sql \<and> sublist ''readonly=2'' s \<and> rq_body rq = sql @ '' SETTINGS '' @ s)
      \<or> (\<exists>i. rq_body rq = sql_kill (''clickfs-'' @ i)))"

lemma safe_settings:
  assumes "allowed_sql sql" and "same_server d rq" and "rq_body rq = append_settings d sql streaming"
  shows "safe_request d rq"
  using append_settings_split [of d sql streaming] assms unfolding safe_request_def by auto

lemma safe_text_request: "allowed_sql sql \<Longrightarrow> safe_request d (text_request d sql)"
  by (erule safe_settings [where streaming = False])
    (simp_all add: same_server_def text_request_def base_request_def)

lemma safe_stream_request: "allowed_sql sql \<Longrightarrow> safe_request d (stream_request d sql q)"
  by (erule safe_settings [where streaming = True])
    (simp_all add: same_server_def stream_request_def base_request_def Let_def split: option.split)

lemma safe_kill_request: "safe_request d (kill_request d (''clickfs-'' @ i))"
  unfolding safe_request_def same_server_def kill_request_def base_request_def
  by simp blast

section \<open>The state invariant\<close>

definition tail_ok :: "tail_context \<Rightarrow> bool" where
  "tail_ok tc \<longleftrightarrow>
     valid_db_or_table (tc_db tc) \<and> valid_db_or_table (tc_tbl tc)
   \<and> pred_option valid_identifier (tc_partition tc)"

definition stream_ok :: "'client http_driver \<Rightarrow> 'client stream_handle \<Rightarrow> bool" where
  "stream_ok d s \<longleftrightarrow>
     sh_driver s = d \<and> pred_option tail_ok (sh_tail s) \<and> prefix ''clickfs-'' (sh_query_id s)"

fun handle_ok :: "'client http_driver \<Rightarrow> 'client file_handle \<Rightarrow> bool" where
  "handle_ok d (HStream s) = stream_ok d s"
| "handle_ok d (HSpecial b) = True"

definition table_ok :: "inode_table \<Rightarrow> bool" where
  "table_ok t \<longleftrightarrow> inode_wf t \<and> (\<forall>i p. inode_lookup t i = Some p \<longrightarrow> p \<noteq> [])"

definition caches_ok :: "'client clickfs \<Rightarrow> bool" where
  "caches_ok fs \<longleftrightarrow>
     cttl (db_cache fs) = cache_ttl \<and> cttl (table_cache fs) = cache_ttl
   \<and> cttl (part_cache fs) = cache_ttl"

definition fs_inv :: "'client http_driver \<Rightarrow> 'client clickfs \<Rightarrow> bool" where
  "fs_inv d fs \<longleftrightarrow>
     f_driver fs = d \<and> table_ok (inodes fs) \<and> fmpred (\<lambda>_. handle_ok d) (handles fs) \<and> caches_ok fs"

lemma handles_upd:
  "fmpred (\<lambda>_. handle_ok d) m \<Longrightarrow> handle_ok d hdl \<Longrightarrow> fmpred (\<lambda>_. handle_ok d) (fmupd k hdl m)"
  by (rule fmpred_upd)

lemma handles_drop: "fmpred (\<lambda>_. handle_ok d) m \<Longrightarrow> fmpred (\<lambda>_. handle_ok d) (fmdrop k m)"
  by (rule fmpred_drop)

lemma table_ok_new: "table_ok inode_new"
  by (auto simp: table_ok_def inode_new_wf) (auto simp: inode_new_def inode_lookup_def split: if_splits)

lemma clickfs_new_inv [wf_intros]: "fs_inv d (clickfs_new d cfg u g now)"
  by (simp add: fs_inv_def clickfs_new_def table_ok_new caches_ok_def)

lemma inode_allocate_table_ok:
  assumes t: "table_ok t" and a: "inode_allocate h path t = Some (i, t')" and p: "path \<noteq> []"
  shows "table_ok t'"
proof -
  have wf: "inode_wf t" using t by (simp add: table_ok_def)
  have "q \<noteq> []" if "inode_lookup t' j = Some q" for j q
  proof (cases "inode_lookup t j = Some q")
    case True
    with t show ?thesis by (simp add: table_ok_def)
  next
    case False
    with inode_allocate_cases [OF wf a] that have "q = path"
      by (auto simp: inode_lookup_def probe_post_def split: if_splits)
    with p show ?thesis by simp
  qed
  with inode_allocate_wf [OF wf a] show ?thesis by (simp add: table_ok_def)
qed

lemma path_of_ne: "fs_inv d fs \<Longrightarrow> path_of fs i = Ok p \<Longrightarrow> p \<noteq> []"
  by (auto simp: fs_inv_def table_ok_def path_of_def split: option.splits)

lemma emit_entries_table_ok:
  assumes "emit_entries h full dir path i es acc t = Some (out, t')" and "table_ok t" and "path \<noteq> []"
  shows "table_ok t'"
  using assms
proof (induction es arbitrary: i acc t)
  case (Cons e es)
  obtain k n where e: "e = (k, n)" by fastforce
  from Cons.prems(1) obtain c t1 where
    c: "(if n = ''.'' \<or> n = ''..'' then Some (dir, t) else inode_allocate h (path_join path n) t)
        = Some (c, t1)"
    by (auto simp: e split: option.splits)
  have t1: "table_ok t1"
    using c Cons.prems(2,3) inode_allocate_table_ok [of t h "path_join path n" c t1]
    by (auto simp: path_join_ne split: if_splits)
  with Cons.prems c Cons.IH show ?case
    by (auto simp: e Let_def split: if_splits)
qed simp

text \<open>A fetch changes only its cache.\<close>

definition cache_lens ::
  "('client clickfs \<Rightarrow> ('k, string list) ttl_cache) \<Rightarrow>
   (('k, string list) ttl_cache \<Rightarrow> 'client clickfs \<Rightarrow> 'client clickfs) \<Rightarrow> bool" where
  "cache_lens sel upd \<longleftrightarrow>
     (\<forall>c fs. sel (upd c fs) = c \<and> (\<forall>c'. upd c (upd c' fs) = upd c fs)) \<and> (\<forall>fs. upd (sel fs) fs = fs)"

lemma cache_lenses:
  "cache_lens db_cache (\<lambda>c fs. fs\<lparr>db_cache := c\<rparr>)"
  "cache_lens table_cache (\<lambda>c fs. fs\<lparr>table_cache := c\<rparr>)"
  "cache_lens part_cache (\<lambda>c fs. fs\<lparr>part_cache := c\<rparr>)"
  by (simp_all add: cache_lens_def)

lemma fetch_cached_frame:
  assumes "cache_lens sel upd" and "fetch_cached sel upd parse e k sql fs w = (r, fs', w')"
  shows "\<exists>c. fs' = upd c fs \<and> cttl c = cttl (sel fs)"
proof -
  obtain t w1 where now: "env_now e w = (t, w1)" by fastforce
  obtain o1 c1 where g: "cache_get (sel fs) k t = (o1, c1)" by fastforce
  have ttl: "cttl c1 = cttl (sel fs)" using tc.get_ttl [of "sel fs" k t] g by simp
  show ?thesis
  proof (cases o1)
    case (Some v)
    with assms(2) now g ttl show ?thesis by (auto simp: fetch_cached_def)
  next
    case None
    obtain q w2 where q: "query_text e (f_driver fs) sql w1 = (q, w2)" by fastforce
    show ?thesis
    proof (cases q)
      case (Inl err)
      with assms(2) now g None q ttl show ?thesis by (auto simp: fetch_cached_def Let_def)
    next
      case (Inr body)
      obtain t2 w3 where "env_now e w2 = (t2, w3)" by fastforce
      with assms now g None q Inr ttl show ?thesis
        by (auto simp: fetch_cached_def Let_def cache_lens_def tc.insert_ttl)
    qed
  qed
qed

lemma fetch_databases_frame:
  "fetch_databases e fs w = (r, fs', w') \<Longrightarrow>
   \<exists>c. fs' = fs\<lparr>db_cache := c\<rparr> \<and> cttl c = cttl (db_cache fs)"
  unfolding fetch_databases_def by (rule fetch_cached_frame [OF cache_lenses(1)])

lemma fetch_tables_frame:
  "fetch_tables e d fs w = (r, fs', w') \<Longrightarrow>
   \<exists>c. fs' = fs\<lparr>table_cache := c\<rparr> \<and> cttl c = cttl (table_cache fs)"
  unfolding fetch_tables_def by (rule fetch_cached_frame [OF cache_lenses(2)])

lemma fetch_partitions_frame:
  "fetch_partitions e d t fs w = (r, fs', w') \<Longrightarrow>
   \<exists>c. fs' = fs\<lparr>part_cache := c\<rparr> \<and> cttl c = cttl (part_cache fs)"
  unfolding fetch_partitions_def by (rule fetch_cached_frame [OF cache_lenses(3)])

text \<open>The part of the state that a fetch leaves alone.\<close>

definition same_but_caches :: "'client clickfs \<Rightarrow> 'client clickfs \<Rightarrow> bool" where
  "same_but_caches fs fs' \<longleftrightarrow>
     f_driver fs' = f_driver fs \<and> inodes fs' = inodes fs \<and> fh_counter fs' = fh_counter fs
   \<and> handles fs' = handles fs \<and> uid fs' = uid fs \<and> gid fs' = gid fs
   \<and> start_time fs' = start_time fs \<and> f_tail_cfg fs' = f_tail_cfg fs
   \<and> (caches_ok fs \<longrightarrow> caches_ok fs')"

lemma same_but_caches_refl [simp]: "same_but_caches fs fs"
  by (simp add: same_but_caches_def)

lemma fetch_same:
  "fetch_databases e fs w = (r, fs', w') \<Longrightarrow> same_but_caches fs fs'"
  "fetch_tables e d fs w = (r, fs', w') \<Longrightarrow> same_but_caches fs fs'"
  "fetch_partitions e d t fs w = (r, fs', w') \<Longrightarrow> same_but_caches fs fs'"
  by (auto dest!: fetch_databases_frame fetch_tables_frame fetch_partitions_frame
      simp: same_but_caches_def caches_ok_def)

lemma same_inv: "same_but_caches fs fs' \<Longrightarrow> fs_inv d fs \<Longrightarrow> fs_inv d fs'"
  by (simp add: same_but_caches_def fs_inv_def)

lemma check_listed_same:
  "check_listed n q = (r, fs', w') \<Longrightarrow> \<exists>r0. q = (r0, fs', w')"
  by (cases q) (auto simp: check_listed_def split: sum.splits)

lemma verify_same:
  assumes "verify_plan_exists e p fs w = (r, fs', w')"
  shows "same_but_caches fs fs'"
  using assms
  by (auto simp: verify_plan_exists_def split: plan_kind.splits option.splits
      dest!: check_listed_same dest: fetch_same)

lemma list_dirs_same: "list_dirs q = (r, fs', w') \<Longrightarrow> \<exists>r0. q = (r0, fs', w')"
  by (cases q) (auto simp: list_dirs_def split: sum.splits)

lemma dir_entries_same:
  assumes "dir_entries e p fs w = (r, fs', w')"
  shows "same_but_caches fs fs'"
  using assms
  by (auto simp: dir_entries_def split: plan_kind.splits sum.splits prod.splits
      dest!: list_dirs_same dest: fetch_same)

section \<open>Confinement\<close>

text \<open>
  A predicate \<open>I\<close> of the world that the program's requests, clock readings and random numbers keep
  is kept by every handler.
\<close>

locale confined =
  fixes e :: "'w env" and d :: "'client http_driver" and I :: "'w \<Rightarrow> bool"
  assumes send: "I w \<Longrightarrow> safe_request d rq \<Longrightarrow> I (snd (env_send e rq w))"
    and now: "I w \<Longrightarrow> I (snd (env_now e w))"
    and uuid: "I w \<Longrightarrow> I (snd (env_uuid e w))"
begin

lemma text_I:
  "I w \<Longrightarrow> allowed_sql sql \<Longrightarrow> query_text e d sql w = (r, w') \<Longrightarrow> I w'"
  using query_text_world [of e d sql w] by (metis send safe_text_request snd_conv)

lemma stream_I:
  "I w \<Longrightarrow> allowed_sql sql \<Longrightarrow> query_stream_with_id e d sql q w = (r, w') \<Longrightarrow> I w'"
  using query_stream_world [of e d sql q w] by (metis send safe_stream_request snd_conv)

lemma now_I: "I w \<Longrightarrow> env_now e w = (t, w') \<Longrightarrow> I w'"
  using now [of w] by simp

lemma uuid_I: "I w \<Longrightarrow> env_uuid e w = (i, w') \<Longrightarrow> I w'"
  using uuid [of w] by simp

lemma fetch_cached_I:
  assumes f: "fetch_cached sel upd parse e k sql fs w = (r, fs', w')"
    and I: "I w" and sql: "allowed_sql sql" and d: "f_driver fs = d"
  shows "I w'"
proof -
  obtain t w1 where n: "env_now e w = (t, w1)" by fastforce
  obtain o1 c1 where g: "cache_get (sel fs) k t = (o1, c1)" by fastforce
  obtain q w2 where q: "query_text e d sql w1 = (q, w2)" by fastforce
  obtain t2 w3 where n2: "env_now e w2 = (t2, w3)" by fastforce
  have "I w1" using I n by (rule now_I)
  moreover from this have "I w2" using sql q by (rule text_I)
  moreover from this have "I w3" using n2 by (rule now_I)
  ultimately show ?thesis
    using f n g q n2 d
    by (cases o1; cases q) (auto simp: fetch_cached_def Let_def)
qed

lemma fetch_I:
  assumes "I w" and "f_driver fs = d"
  shows "fetch_databases e fs w = (r, fs', w') \<Longrightarrow> I w'"
    and "valid_db_or_table b \<Longrightarrow> fetch_tables e b fs w = (r, fs', w') \<Longrightarrow> I w'"
    and "valid_db_or_table b \<Longrightarrow> valid_db_or_table t \<Longrightarrow>
           fetch_partitions e b t fs w = (r, fs', w') \<Longrightarrow> I w'"
  unfolding fetch_databases_def fetch_tables_def fetch_partitions_def
  using assms by (auto elim!: fetch_cached_I intro: allowed_sql.intros)

lemma verify_I:
  assumes "I w" and "f_driver fs = d" and "plan_wf p"
    and "verify_plan_exists e p fs w = (r, fs', w')"
  shows "I w'"
  using assms
  by (auto simp: verify_plan_exists_def plan_wf_def split: plan_kind.splits option.splits
      dest!: check_listed_same dest: fetch_I)

lemma dir_entries_I:
  assumes "I w" and "f_driver fs = d" and "plan_wf p"
    and "dir_entries e p fs w = (r, fs', w')"
  shows "I w'"
  using assms
  by (auto simp: dir_entries_def plan_wf_def split: plan_kind.splits sum.splits prod.splits
      dest!: list_dirs_same dest: fetch_I)

lemma render_I:
  assumes "I w" and "valid_db_or_table b" and "valid_db_or_table t"
    and "render e j d b t w = (r, w')"
  shows "I w'"
proof -
  obtain r1 w1 where 1: "query_text e d (sql_describe b t) w = (r1, w1)" by fastforce
  obtain r2 w2 where 2: "query_text e d (sql_stats b t) w1 = (r2, w2)" by fastforce
  obtain r3 w3 where 3: "query_text e d (sql_columns b t) w2 = (r3, w3)" by fastforce
  obtain r4 w4 where 4: "query_text e d (sql_count b t) w3 = (r4, w4)" by fastforce
  obtain r5 w5 where 5: "query_text e d (sql_sample b t) w4 = (r5, w5)" by fastforce
  have "I w1" using assms(1) _ 1 by (rule text_I) (intro allowed_sql.intros assms)
  then have "I w2" using _ 2 by (rule text_I) (intro allowed_sql.intros assms)
  then have "I w3" using _ 3 by (rule text_I) (intro allowed_sql.intros assms)
  then have "I w4" using _ 4 by (rule text_I) (intro allowed_sql.intros assms)
  then have "I w5" using _ 5 by (rule text_I) (intro allowed_sql.intros assms)
  with assms(4) 1 2 3 4 5 show ?thesis by (simp add: render_def)
qed

lemma spawn_I:
  assumes "I w" and "allowed_sql sql" and "pred_option tail_ok tail"
    and "stream_spawn e d sql tail w = (s, w')"
  shows "I w' \<and> stream_ok d s"
proof -
  obtain i w1 where i: "env_uuid e w = (i, w1)" by fastforce
  obtain q w2 where q: "query_stream_with_id e d sql (Some (''clickfs-'' @ i)) w1 = (q, w2)"
    by fastforce
  have "I w1" using assms(1) i by (rule uuid_I)
  then have "I w2" using assms(2) q by (rule stream_I)
  with assms(3,4) i q show ?thesis
    by (auto simp: stream_spawn_def stream_ok_def)
qed

lemma open_stream_I:
  assumes w: "I w" and fs: "f_driver fs = d" and b: "valid_db_or_table b" and t: "valid_db_or_table t"
    and part: "pred_option valid_identifier part" and sql: "allowed_sql sql"
    and op: "open_stream x b t part sql fs w = (hdl, w')" and e: "x_env x = e"
  shows "I w' \<and> handle_ok d hdl"
proof (cases "tail_enabled (f_tail_cfg fs)")
  case True
  obtain r w1 where r: "query_text e d (sql_table_pk b t) w = (r, w1)" by fastforce
  have w1: "I w1" using w _ r by (rule text_I) (intro allowed_sql.intros b t)
  let ?tc = "\<lparr>tc_db = b, tc_tbl = t, tc_order_expr = tail_order_of (x_json x) r,
    tc_partition = part, tc_cfg = f_tail_cfg fs\<rparr>"
  obtain s w2 where s: "stream_spawn e d sql (Some ?tc) w1 = (s, w2)" by fastforce
  have "pred_option tail_ok (Some ?tc)" using b t part by (simp add: tail_ok_def)
  with w1 sql have "I w2 \<and> stream_ok d s" using s by (rule spawn_I)
  then show ?thesis
    using op True r s fs e by (auto simp: open_stream_def fetch_tail_order_expr_def)
next
  case False
  obtain s w2 where s: "stream_spawn e d sql None w = (s, w2)" by fastforce
  have "I w2 \<and> stream_ok d s" using w sql _ s by (rule spawn_I) simp
  then show ?thesis using op False s fs e by (auto simp: open_stream_def)
qed

lemma open_handle_I:
  assumes w: "I w" and fs: "f_driver fs = d" and p: "plan_wf p" and e: "x_env x = e"
    and op: "open_handle x p fs w = (r, w')"
  shows "I w' \<and> (\<forall>hdl. r = Ok hdl \<longrightarrow> handle_ok d hdl)"
proof (cases "p_kind p")
  case DescribeTable
  then obtain b t where bt: "p_db p = Some b" "p_table p = Some t" "valid_db_or_table b"
      "valid_db_or_table t" using p by (auto simp: plan_wf_def)
  obtain q w1 where q: "query_text e d (sql_describe b t) w = (q, w1)" by fastforce
  have "I w1" using w _ q by (rule text_I) (intro allowed_sql.intros bt)
  then show ?thesis
    using op DescribeTable bt q fs e
    by (cases q) (auto simp: open_handle_def fetch_describe_def Let_def)
next
  case Readme
  then obtain b t where bt: "p_db p = Some b" "p_table p = Some t" "valid_db_or_table b"
      "valid_db_or_table t" using p by (auto simp: plan_wf_def)
  then show ?thesis
    using op Readme fs e render_I [OF w bt(3,4), of "x_json x"]
    by (auto simp: open_handle_def Let_def split: prod.splits)
next
  case StreamAll
  then obtain b t where bt: "p_db p = Some b" "p_table p = Some t" "valid_db_or_table b"
      "valid_db_or_table t" using p by (auto simp: plan_wf_def)
  obtain hdl w1 where o1: "open_stream x b t None (sql_stream_all b t) fs w = (hdl, w1)" by fastforce
  have "I w1 \<and> handle_ok d hdl"
    by (rule open_stream_I [OF w fs bt(3,4) _ _ o1 e]) (simp, intro allowed_sql.intros bt)
  then show ?thesis using op StreamAll bt o1 by (auto simp: open_handle_def Let_def)
next
  case (StreamPartition s)
  then obtain b t where bt: "p_db p = Some b" "p_table p = Some t" "valid_db_or_table b"
      "valid_db_or_table t" "valid_identifier s" using p by (auto simp: plan_wf_def)
  obtain hdl w1 where o1: "open_stream x b t (Some s) (sql_stream_partition b t s) fs w = (hdl, w1)"
    by fastforce
  have "I w1 \<and> handle_ok d hdl"
    by (rule open_stream_I [OF w fs bt(3,4) _ _ o1 e]) (simp add: bt, intro allowed_sql.intros bt)
  then show ?thesis using op StreamPartition bt o1 by (auto simp: open_handle_def Let_def)
qed (use w op in \<open>auto simp: open_handle_def Let_def\<close>)

lemma read_blocking_I:
  assumes "I w" and "stream_ok d s" and "read_blocking e s offset sz w = (r, s', w')"
  shows "I w' \<and> stream_ok d s'"
proof -
  note world = read_blocking_world [OF assms(3)]
  have id: "sh_query_id s' = sh_query_id s"
    using assms(3) by (auto simp: read_blocking_def maybe_materialize_def
        split: prod.splits option.splits sum.splits if_splits)
  have "I w'"
  proof (cases "need_materialize s offset")
    case True
    then obtain tc where tc: "sh_tail s = Some tc"
      and w': "w' = snd (env_send e (text_request d (tail_sql tc)) w)"
      using world assms(2) by (auto simp: stream_ok_def)
    have "tail_ok tc" using assms(2) tc by (simp add: stream_ok_def)
    then have "allowed_sql (tail_sql tc)"
      unfolding tail_sql_def tail_ok_def by (intro allowed_sql.intros) simp_all
    then show ?thesis unfolding w' by (intro send assms(1) safe_text_request)
  qed (use world assms(1) in simp)
  then show ?thesis using world assms(2) id by (simp add: stream_ok_def)
qed

lemma drop_I:
  assumes "I w" and "stream_ok d s"
  shows "I (stream_drop e s w)"
proof -
  obtain i where "sh_query_id s = ''clickfs-'' @ i"
    using assms(2) by (auto simp: stream_ok_def prefix_def simp del: append_Cons)
  with assms show ?thesis
    by (simp only: stream_drop_def kill_query_def stream_ok_def send safe_kill_request)
qed

text \<open>The handlers.\<close>

lemma lookup_I:
  assumes w: "I w" and fs: "fs_inv d fs" and e: "x_env x = e"
    and l: "fs_lookup x parent name fs w = Some (r, fs', w')"
  shows "I w' \<and> fs_inv d fs'"
proof -
  consider (early) "fs' = fs" "w' = w"
    | (deep) pp p r1 fs1 w1 where "path_of fs parent = Ok pp" "resolve (path_join pp name) = Ok p"
        "verify_plan_exists e p fs w = (r1, fs1, w1)" "w' = w1"
        "fs' = fs1 \<or> (\<exists>i t. inode_allocate (x_hash x) (path_join pp name) (inodes fs1) = Some (i, t)
            \<and> fs' = fs1\<lparr>inodes := t\<rparr>)"
    using l e
    by (auto simp: fs_lookup_def to_str_def Let_def split: sum.splits option.splits prod.splits if_splits)
  then show ?thesis
  proof cases
    case deep
    have fs1: "fs_inv d fs1" using verify_same [OF deep(3)] fs by (rule same_inv)
    have "I w1" using w _ resolve_wf [OF deep(2)] deep(3) by (rule verify_I) (use fs in \<open>simp add: fs_inv_def\<close>)
    moreover have "path_join pp name \<noteq> []" using path_of_ne [OF fs deep(1)] by (rule path_join_ne)
    ultimately show ?thesis
      using deep(4,5) fs1 by (auto simp: fs_inv_def caches_ok_def intro: inode_allocate_table_ok)
  qed (use w fs in simp)
qed

lemma readdir_I:
  assumes w: "I w" and fs: "fs_inv d fs" and e: "x_env x = e"
    and l: "fs_readdir x full i offset fs w = Some (r, fs', w')"
  shows "I w' \<and> fs_inv d fs'"
proof -
  consider (early) "fs' = fs" "w' = w"
    | (deep) pp p r1 fs1 w1 where "path_of fs i = Ok pp" "resolve pp = Ok p"
        "dir_entries e p fs w = (r1, fs1, w1)" "w' = w1"
        "fs' = fs1 \<or> (\<exists>es n out t. emit_entries (x_hash x) full i pp n es [] (inodes fs1) = Some (out, t)
            \<and> fs' = fs1\<lparr>inodes := t\<rparr>)"
    using l e
    by (auto simp: fs_readdir_def Let_def split: sum.splits option.splits prod.splits if_splits; blast)
  then show ?thesis
  proof cases
    case deep
    have fs1: "fs_inv d fs1" using dir_entries_same [OF deep(3)] fs by (rule same_inv)
    have "I w1" using w _ resolve_wf [OF deep(2)] deep(3) by (rule dir_entries_I) (use fs in \<open>simp add: fs_inv_def\<close>)
    moreover have "pp \<noteq> []" using path_of_ne [OF fs deep(1)] .
    ultimately show ?thesis
      using deep(4,5) fs1 by (auto simp: fs_inv_def caches_ok_def intro: emit_entries_table_ok)
  qed (use w fs in simp)
qed

lemma open_I:
  assumes w: "I w" and fs: "fs_inv d fs" and e: "x_env x = e"
    and l: "fs_open x i flags fs w = (r, fs', w')"
  shows "I w' \<and> fs_inv d fs'"
proof -
  let ?fs1 = "fs\<lparr>fh_counter := fh_counter fs + 1\<rparr>"
  consider (early) "fs' = fs" "w' = w"
    | (deep) pp p r1 w1 where "resolve pp = Ok p" "open_handle x p ?fs1 w = (r1, w1)" "w' = w1"
        "fs' = ?fs1 \<or> (\<exists>hdl. r1 = Ok hdl \<and> fs' = ?fs1\<lparr>handles := fmupd (fh_counter fs) hdl (handles fs)\<rparr>)"
    using l by (auto simp: fs_open_def Let_def split: sum.splits prod.splits if_splits)
  then show ?thesis
  proof cases
    case deep
    have "f_driver ?fs1 = d" using fs by (simp add: fs_inv_def)
    from open_handle_I [OF w this resolve_wf [OF deep(1)] e deep(2)] deep(3,4) fs show ?thesis
      by (auto simp: fs_inv_def caches_ok_def)
  qed (use w fs in simp)
qed

lemma read_I:
  assumes w: "I w" and fs: "fs_inv d fs" and l: "fs_read e fh offset sz fs w = (r, fs', w')"
  shows "I w' \<and> fs_inv d fs'"
proof (cases "fmlookup (handles fs) fh")
  case (Some hdl)
  then have ok: "handle_ok d hdl" using fs by (auto simp: fs_inv_def dest: fmpredD)
  show ?thesis
  proof (cases hdl)
    case (HStream s)
    obtain q s' w1 where q: "read_blocking e s (i64_max0 offset) (unat sz) w = (q, s', w1)"
      using prod_cases3 by blast
    have "I w1 \<and> stream_ok d s'" using w _ q by (rule read_blocking_I) (use ok HStream in simp)
    with l Some HStream q fs show ?thesis
      by (auto simp: fs_read_def fs_inv_def caches_ok_def handles_upd)
  qed (use w fs l Some in \<open>auto simp: fs_read_def\<close>)
qed (use w fs l in \<open>simp add: fs_read_def\<close>)

lemma release_I:
  assumes w: "I w" and fs: "fs_inv d fs"
  shows "I (snd (fs_release e fh fs w)) \<and> fs_inv d (fst (fs_release e fh fs w))"
proof -
  have "I (snd (fs_release e fh fs w))"
    using w fs by (auto simp: fs_release_def fs_inv_def drop_I dest: fmpredD
        split: option.splits file_handle.splits)
  then show ?thesis using fs by (simp add: fs_release_def fs_inv_def caches_ok_def handles_drop)
qed

lemma handle_I:
  assumes w: "I w" and fs: "fs_inv d fs" and e: "x_env x = e"
    and l: "fs_handle x full req fs w = Some (r, fs', w')"
  shows "I w' \<and> fs_inv d fs'"
proof (cases req)
  case (ReqLookup parent name)
  with l lookup_I [OF w fs e] show ?thesis by auto
next
  case (ReqReaddir i offset)
  with l readdir_I [OF w fs e] show ?thesis by auto
next
  case (ReqOpen i flags)
  with l open_I [OF w fs e] show ?thesis
    by (cases "fs_open x i flags fs w") auto
next
  case (ReqRead fh offset sz)
  with l read_I [OF w fs] e show ?thesis
    by (cases "fs_read e fh offset sz fs w") auto
next
  case (ReqRelease fh)
  with l release_I [OF w fs] e show ?thesis by (metis fs_handle.simps(6) fst_conv option.inject snd_conv)
qed (use w fs l in auto)

lemma run_I:
  assumes "I w" and "fs_inv d fs" and e: "x_env x = e"
    and "fs_run x full reqs fs w = Some (rs, fs', w')"
  shows "I w' \<and> fs_inv d fs'"
  using assms(1,2,4)
proof (induction reqs arbitrary: rs fs w)
  case (Cons q qs)
  obtain r fs1 w1 where q: "fs_handle x full q fs w = Some (r, fs1, w1)"
    using Cons.prems(3) by (auto split: option.splits)
  then obtain rs1 where "fs_run x full qs fs1 w1 = Some (rs1, fs', w')"
    using Cons.prems(3) by auto
  with handle_I [OF Cons.prems(1,2) e q] Cons.IH show ?case by blast
qed simp

end

section \<open>Interpretations\<close>

text \<open>Without a condition on the world, the state invariant alone.\<close>

interpretation any: confined e d "\<lambda>_. True" for e d
  by unfold_locales simp_all

text \<open>A world that logs the requests.\<close>

definition env_logged :: "'w env \<Rightarrow> ('w \<times> http_request list) env" where
  "env_logged e =
     \<lparr>env_send = (\<lambda>rq (w, l). case env_send e rq w of (r, w') \<Rightarrow> (r, w', l @ [rq])),
      env_now = (\<lambda>(w, l). case env_now e w of (t, w') \<Rightarrow> (t, w', l)),
      env_uuid = (\<lambda>(w, l). case env_uuid e w of (i, w') \<Rightarrow> (i, w', l))\<rparr>"

definition log_safe :: "'client http_driver \<Rightarrow> 'w \<times> http_request list \<Rightarrow> bool" where
  "log_safe d w \<longleftrightarrow> list_all (safe_request d) (snd w)"

interpretation logged: confined "env_logged e" d "log_safe d" for e d
proof
  fix w :: "'a \<times> http_request list" and rq
  show "log_safe d w \<Longrightarrow> safe_request d rq \<Longrightarrow> log_safe d (snd (env_send (env_logged e) rq w))"
    by (auto simp: log_safe_def env_logged_def split: prod.splits)
  show "log_safe d w \<Longrightarrow> log_safe d (snd (env_now (env_logged e) w))"
    by (auto simp: log_safe_def env_logged_def split: prod.splits)
  show "log_safe d w \<Longrightarrow> log_safe d (snd (env_uuid (env_logged e) w))"
    by (auto simp: log_safe_def env_logged_def split: prod.splits)
qed

end
