(* ===== verification/Cli.thy ===== *)
theory Cli
  imports FsInv
begin

text \<open>
  \<open>src/main.rs\<close>: the commands with the defaults of their options, the order of the start-up checks of
  \<open>run_mount\<close>, the mount options, the thread that unmounts on a signal, \<open>run_umount\<close> and the exit codes.
  Of \<open>clap\<close> only the declared conflict of two options is modelled: its result, with the options read
  into their declared types, is a \<open>cli_command\<close>.  Logging is not modelled.  The start time of a mount is
  read from the same clock as the ages of the caches.  What the code calls outside
  the repository is the record \<open>host\<close>: the URL parser, the file system, the runtime, the two fallible
  operations of \<open>reqwest\<close>, child processes, and \<open>fuser::mount2\<close>, which serves the session and returns
  when it ends.
\<close>

record mount_args =
  a_url :: string
  a_mountpoint :: string
  a_user :: string
  a_password :: string
  a_query_timeout :: u64
  a_max_result_bytes :: u64
  a_allow_other :: bool
  a_no_auto_unmount :: bool
  a_insecure :: bool
  a_ca_bundle :: "string option"
  a_no_compression :: bool
  a_no_tail :: bool
  a_tail_rows :: u32

datatype cli_command = Mount mount_args | Umount string

text \<open>The arguments of \<open>mount\<close> when no option and no environment variable is given.\<close>

definition mount_defaults :: "string \<Rightarrow> string \<Rightarrow> mount_args" where
  "mount_defaults url mountpoint =
     \<lparr>a_url = url, a_mountpoint = mountpoint, a_user = ''default'', a_password = [],
      a_query_timeout = 60, a_max_result_bytes = 1073741824, a_allow_other = False,
      a_no_auto_unmount = False, a_insecure = False, a_ca_bundle = None, a_no_compression = False,
      a_no_tail = False, a_tail_rows = 10000\<rparr>"

text \<open>The outcome of a child process: it cannot be started, or it ends with a code or by a signal.\<close>

datatype command_status = NotStarted | Exited int | Signalled

datatype mount_option =
    FSName string
  | RO
  | Subtype string
  | DefaultPermissions
  | NoSuid
  | NoDev
  | AutoUnmount
  | AllowOther

record ('w, 'client, 'cert) host =
  h_linux :: bool
  h_parse_url :: "string \<Rightarrow> string + string"
  h_is_dir :: "string \<Rightarrow> bool"
  h_read_file :: "string \<Rightarrow> string + bytes"
  h_runtime :: "string + unit"
  h_from_pem :: "bytes \<Rightarrow> string + 'cert list"
  h_build :: "'cert client_options \<Rightarrow> string + 'client"
  h_signals :: bool
  h_command :: "string \<Rightarrow> string list \<Rightarrow> 'w \<Rightarrow> command_status \<times> 'w"
  h_uid :: u32
  h_gid :: u32
  h_mount :: "'client clickfs \<Rightarrow> string \<Rightarrow> mount_option list \<Rightarrow> 'w \<Rightarrow> (string + unit) \<times> 'w"

type_synonym exit_code = "8 word"

definition mount_options :: "bool \<Rightarrow> mount_args \<Rightarrow> mount_option list" where
  "mount_options linux a =
     [FSName ''clickfs'', RO]
     @ (if linux
        then [Subtype ''clickfs'', DefaultPermissions, NoSuid, NoDev]
             @ (if a_no_auto_unmount a then [] else [AutoUnmount])
        else [])
     @ (if a_allow_other a then [AllowOther] else [])"

definition tail_cfg_of :: "mount_args \<Rightarrow> tail_config" where
  "tail_cfg_of a = \<lparr>tail_enabled = \<not> a_no_tail a, tail_rows = max (a_tail_rows a) 1\<rparr>"

definition tls_of :: "mount_args \<Rightarrow> bytes option \<Rightarrow> tls_config" where
  "tls_of a pem = \<lparr>insecure = a_insecure a, ca_bundle_pem = pem\<rparr>"

definition read_bundle :: "('w, 'client, 'cert) host \<Rightarrow> mount_args \<Rightarrow> string + bytes option" where
  "read_bundle hst a =
     (case a_ca_bundle a of
        None \<Rightarrow> Ok None
      | Some path \<Rightarrow> (case h_read_file hst path of Inr b \<Rightarrow> Ok (Some b) | Inl err \<Rightarrow> Err err))"

definition run_mount ::
  "('w, 'client, 'cert) host \<Rightarrow> 'w env \<Rightarrow> mount_args \<Rightarrow> 'w \<Rightarrow> exit_code \<times> 'w" where
  "run_mount hst e a w =
     (case h_parse_url hst (a_url a) of
        Inl _ \<Rightarrow> (2, w)
      | Inr parsed_url \<Rightarrow>
         if \<not> h_is_dir hst (a_mountpoint a) then (2, w)
         else
          (case read_bundle hst a of
             Inl _ \<Rightarrow> (2, w)
           | Inr pem \<Rightarrow>
              (case h_runtime hst of
                 Inl _ \<Rightarrow> (1, w)
               | Inr _ \<Rightarrow>
                  (case driver_new (h_from_pem hst) (h_build hst) parsed_url (a_user a) (a_password a)
                          (a_query_timeout a) (a_max_result_bytes a) (tls_of a pem)
                          \<lparr>comp_enabled = \<not> a_no_compression a\<rparr> of
                     Inl _ \<Rightarrow> (1, w)
                   | Inr d \<Rightarrow>
                      (case ping e d w of
                         (Inl _, w1) \<Rightarrow> (1, w1)
                       | (Inr _, w1) \<Rightarrow>
                          (case env_now e w1 of (t, w2) \<Rightarrow>
                             (let fs = clickfs_new d (tail_cfg_of a) (h_uid hst) (h_gid hst) t
                              in case h_mount hst fs (a_mountpoint a)
                                        (mount_options (h_linux hst) a) w2 of
                                   (Inl _, w3) \<Rightarrow> (1, w3)
                                 | (Inr _, w3) \<Rightarrow> (0, w3))))))))"

text \<open>
  The thread that waits for Ctrl-C or SIGTERM: when the signal arrives it runs both unmount commands,
  whatever their outcomes, provided its runtime and the handler could be set up (\<open>h_signals\<close>).
\<close>

definition on_signal :: "('w, 'client, 'cert) host \<Rightarrow> string \<Rightarrow> 'w \<Rightarrow> 'w" where
  "on_signal hst mountpoint w =
     (if h_signals hst then
        (case h_command hst ''fusermount'' [''-u'', mountpoint] w of
           (_, w1) \<Rightarrow> snd (h_command hst ''umount'' [mountpoint] w1))
      else w)"

definition run_umount :: "('w, 'client, 'cert) host \<Rightarrow> string \<Rightarrow> 'w \<Rightarrow> exit_code \<times> 'w" where
  "run_umount hst mountpoint w =
     (case (if h_linux hst then h_command hst ''fusermount'' [''-u'', mountpoint] w
            else h_command hst ''umount'' [mountpoint] w) of
        (st, w1) \<Rightarrow>
          ((case st of
              Exited c \<Rightarrow> if c = 0 then 0 else word_of_int c
            | Signalled \<Rightarrow> 1
            | NotStarted \<Rightarrow> 1), w1))"

text \<open>
  The declaration \<open>conflicts_with = "ca_bundle"\<close> of \<open>--insecure\<close>: \<open>Cli::parse\<close> of \<open>clap\<close> ends the process
  with its usage error, exit code 2, when both options are given; a default value counts as not given.
\<close>

definition cli_parse :: "cli_command \<Rightarrow> exit_code + cli_command" where
  "cli_parse cmd =
     (case cmd of
        Mount a \<Rightarrow> if a_insecure a \<and> a_ca_bundle a \<noteq> None then Err 2 else Ok cmd
      | Umount _ \<Rightarrow> Ok cmd)"

definition cli_run ::
  "('w, 'client, 'cert) host \<Rightarrow> 'w env \<Rightarrow> cli_command \<Rightarrow> 'w \<Rightarrow> exit_code \<times> 'w" where
  "cli_run hst e cmd w =
     (case cli_parse cmd of
        Inl code \<Rightarrow> (code, w)
      | Inr (Mount a) \<Rightarrow> run_mount hst e a w
      | Inr (Umount mountpoint) \<Rightarrow> run_umount hst mountpoint w)"

section \<open>Lemmas\<close>

text \<open>
  Everything before the ping is local, and the session is only mounted after the server answered it,
  read-only, with a file system that satisfies its invariant.
\<close>

lemma run_mount_no_request:
  assumes "(\<exists>err. h_parse_url hst (a_url a) = Err err) \<or> \<not> h_is_dir hst (a_mountpoint a)
    \<or> (\<exists>err. read_bundle hst a = Err err)"
  shows "run_mount hst e a w = (2, w)"
  using assms by (auto simp: run_mount_def split: sum.splits)

lemma run_mount_success:
  assumes "run_mount hst e a w = (0, w')"
  shows "\<exists>d fs w1 w2 opts. fst (ping e d w) = Ok () \<and> fs_inv d fs \<and> RO \<in> set opts
    \<and> 1 \<le> tail_rows (f_tail_cfg fs)
    \<and> h_mount hst fs (a_mountpoint a) opts w1 = (Ok (), w2) \<and> w' = w2"
proof -
  from assms obtain u pem d w1 t w2 where
    1: "ping e d w = (Ok (), w1)" "env_now e w1 = (t, w2)"
      "h_mount hst (clickfs_new d (tail_cfg_of a) (h_uid hst) (h_gid hst) t) (a_mountpoint a)
         (mount_options (h_linux hst) a) w2 = (Ok (), w')"
    by (auto simp: run_mount_def Let_def split: sum.splits prod.splits if_splits)
  have "RO \<in> set (mount_options (h_linux hst) a)" by (simp add: mount_options_def)
  moreover have "1 \<le> tail_rows (f_tail_cfg (clickfs_new d (tail_cfg_of a) (h_uid hst) (h_gid hst) t))"
    by (simp add: clickfs_new_def tail_cfg_of_def)
  moreover have "fst (ping e d w) = Ok ()" using 1(1) by simp
  ultimately show ?thesis using 1(3) clickfs_new_inv by blast
qed

text \<open>The arguments that \<open>mount\<close> refuses before it does anything.\<close>

definition bad_arguments :: "('w, 'client, 'cert) host \<Rightarrow> mount_args \<Rightarrow> bool" where
  "bad_arguments hst a \<longleftrightarrow>
     (\<exists>err. h_parse_url hst (a_url a) = Err err) \<or> \<not> h_is_dir hst (a_mountpoint a)
   \<or> (\<exists>err. read_bundle hst a = Err err)"

text \<open>The options that exclude each other.\<close>

definition conflicting_options :: "mount_args \<Rightarrow> bool" where
  "conflicting_options a \<longleftrightarrow> a_insecure a \<and> a_ca_bundle a \<noteq> None"

lemma run_mount_codes:
  "fst (run_mount hst e a w) \<in> {0, 1, 2} \<and> (fst (run_mount hst e a w) = 2 \<longleftrightarrow> bad_arguments hst a)"
  by (auto simp: run_mount_def bad_arguments_def Let_def split: sum.splits prod.splits)

text \<open>\<open>umount\<close> exits with 0 exactly when its command does; codes of a child are below 256.\<close>

lemma run_umount_zero:
  assumes "\<And>prog args w c w1. h_command hst prog args w = (Exited c, w1) \<Longrightarrow> 0 \<le> c \<and> c < 256"
  shows "fst (run_umount hst mp w) = 0 \<longleftrightarrow>
    fst (if h_linux hst then h_command hst ''fusermount'' [''-u'', mp] w else h_command hst ''umount'' [mp] w)
      = Exited 0"
proof -
  have zero: "(if c = 0 then 0 else word_of_int c) = (0 :: exit_code) \<longleftrightarrow> c = 0" if "0 \<le> c" "c < 256" for c
    using that by (auto simp: word_of_int_eq_0_iff dvd_def)
  obtain st w1 where st: "(if h_linux hst then h_command hst ''fusermount'' [''-u'', mp] w
      else h_command hst ''umount'' [mp] w) = (st, w1)" by fastforce
  have "0 \<le> c \<and> c < 256" if "st = Exited c" for c
    using st assms that by (metis (full_types))
  then show ?thesis
    unfolding run_umount_def st by (cases st) (auto dest: zero)
qed

end
