(* ===== verification/FsProps.thy ===== *)
theory FsProps
  imports FsInv
begin

text \<open>
  The functional behaviour of the handlers: inodes keep their meaning during a session, \<open>lookup\<close>,
  \<open>getattr\<close> and \<open>readdir\<close> agree, file handles are fresh and isolated, listings are cached, and the
  bytes that reads deliver are those of the server's answer.
\<close>

section \<open>Inodes during a session\<close>

definition inodes_grow :: "inode_table \<Rightarrow> inode_table \<Rightarrow> bool" where
  "inodes_grow t t' \<longleftrightarrow>
     (inode_wf t \<longrightarrow> inode_wf t') \<and>
     (inode_wf t \<longrightarrow> (\<forall>i p. inode_lookup t i = Some p \<longrightarrow> inode_lookup t' i = Some p))"

lemma inodes_grow_refl [simp]: "inodes_grow t t"
  by (simp add: inodes_grow_def)

lemma inodes_grow_trans: "inodes_grow t t' \<Longrightarrow> inodes_grow t' t'' \<Longrightarrow> inodes_grow t t''"
  by (simp add: inodes_grow_def)

lemma allocate_grow: "inode_allocate h p t = Some (i, t') \<Longrightarrow> inodes_grow t t'"
  using inode_allocate_wf inode_allocate_frame by (simp add: inodes_grow_def)

text \<open>What the directory loop emits.\<close>

definition entry_ok :: "u64 \<Rightarrow> string \<Rightarrow> inode_table \<Rightarrow> dir_entry \<Rightarrow> bool" where
  "entry_ok dir path t d \<longleftrightarrow>
     (if de_name d = ''.'' \<or> de_name d = ''..'' then de_ino d = dir
      else \<exists>q. inode_lookup t (de_ino d) = Some q \<and> path_eq q (path_join path (de_name d)))"

lemma entry_ok_grow:
  "entry_ok dir path t d \<Longrightarrow> inode_wf t \<Longrightarrow> inodes_grow t t' \<Longrightarrow> entry_ok dir path t' d"
  by (auto simp: entry_ok_def inodes_grow_def)

lemma emit_entries_result:
  assumes "emit_entries h full dir path i es acc t = Some (out, t')" and "inode_wf t"
    and "list_all (entry_ok dir path t) acc"
  shows "inodes_grow t t' \<and> list_all (entry_ok dir path t') out \<and>
    (\<exists>new. out = acc @ new \<and> map (\<lambda>d. (de_kind d, de_name d)) new = take (length new) es \<and>
       (\<forall>j < length new. de_offset (new ! j) = word_of_nat (i + j + 1)) \<and>
       ((\<forall>a d. \<not> full a d) \<longrightarrow> length new = length es))"
  using assms
proof (induction es arbitrary: i acc t)
  case (Cons e es)
  obtain k n where e: "e = (k, n)" by fastforce
  from Cons.prems(1) obtain c t1 where
    c: "(if n = ''.'' \<or> n = ''..'' then Some (dir, t) else inode_allocate h (path_join path n) t)
        = Some (c, t1)"
    by (auto simp: e split: option.splits)
  have grow: "inodes_grow t t1"
    using c by (auto simp: allocate_grow split: if_splits)
  then have wf1: "inode_wf t1" using Cons.prems(2) by (simp add: inodes_grow_def)
  let ?d = "\<lparr>de_ino = c, de_offset = word_of_nat (i + 1), de_kind = k, de_name = n\<rparr>"
  have d: "entry_ok dir path t1 ?d"
    using c inode_allocate_lookup [OF Cons.prems(2)] by (auto simp: entry_ok_def split: if_splits)
  have acc: "list_all (entry_ok dir path t1) acc"
    using Cons.prems(2,3) grow entry_ok_grow by (auto simp: list_all_iff)
  show ?case
  proof (cases "full acc ?d")
    case True
    with Cons.prems(1) c have "out = acc" and "t' = t1" by (auto simp: e Let_def)
    with grow acc True show ?thesis by (intro conjI exI [of _ "[]"]) auto
  next
    case False
    then have rec: "emit_entries h full dir path (i + 1) es (acc @ [?d]) t1 = Some (out, t')"
      using Cons.prems(1) c by (simp add: e Let_def)
    have "list_all (entry_ok dir path t1) (acc @ [?d])" using acc d by simp
    from Cons.IH [OF rec wf1 this] obtain new where
      new: "inodes_grow t1 t'" "list_all (entry_ok dir path t') out" "out = (acc @ [?d]) @ new"
        "map (\<lambda>d. (de_kind d, de_name d)) new = take (length new) es"
        "\<forall>j < length new. de_offset (new ! j) = word_of_nat (i + 1 + j + 1)"
        "(\<forall>a d. \<not> full a d) \<longrightarrow> length new = length es"
      by blast
    have "\<forall>j < length (?d # new). de_offset ((?d # new) ! j) = word_of_nat (i + j + 1)"
    proof (intro allI impI)
      fix j assume "j < length (?d # new)"
      then show "de_offset ((?d # new) ! j) = word_of_nat (i + j + 1)"
        using new(5) by (cases j) (auto simp: ac_simps)
    qed
    moreover have "out = acc @ ?d # new" using new(3) by simp
    moreover have "map (\<lambda>d. (de_kind d, de_name d)) (?d # new) = take (length (?d # new)) (e # es)"
      using new(4) e by simp
    moreover have "(\<forall>a d. \<not> full a d) \<longrightarrow> length (?d # new) = length (e # es)"
      using new(6) by simp
    moreover have "inodes_grow t t'" using grow new(1) by (rule inodes_grow_trans)
    ultimately show ?thesis using new(2) by blast
  qed
qed simp

lemma lookup_grow:
  assumes "fs_lookup x parent name fs w = Some (r, fs', w')"
  shows "inodes_grow (inodes fs) (inodes fs')"
  using assms
  by (auto simp: fs_lookup_def Let_def same_but_caches_def allocate_grow
      dest!: verify_same split: sum.splits option.splits prod.splits)

lemma readdir_grow:
  assumes "inode_wf (inodes fs)" and "fs_readdir x full i offset fs w = Some (r, fs', w')"
  shows "inodes_grow (inodes fs) (inodes fs')"
  using assms
  by (auto simp: fs_readdir_def Let_def same_but_caches_def
      dest!: dir_entries_same emit_entries_result split: sum.splits option.splits prod.splits)

lemma open_inodes: "fs_open x i flags fs w = (r, fs', w') \<Longrightarrow> inodes fs' = inodes fs"
  by (auto simp: fs_open_def Let_def split: sum.splits prod.splits if_splits)

lemma read_inodes: "fs_read e fh offset sz fs w = (r, fs', w') \<Longrightarrow> inodes fs' = inodes fs"
  by (auto simp: fs_read_def split: option.splits file_handle.splits prod.splits)

lemma handle_grow:
  assumes wf: "inode_wf (inodes fs)" and h: "fs_handle x full req fs w = Some (r, fs', w')"
  shows "inodes_grow (inodes fs) (inodes fs')"
proof (cases req)
  case (ReqOpen i flags)
  with h open_inodes show ?thesis by (cases "fs_open x i flags fs w") fastforce
next
  case (ReqRead fh offset sz)
  with h read_inodes show ?thesis by (cases "fs_read (x_env x) fh offset sz fs w") fastforce
next
  case (ReqReaddir i offset)
  with h readdir_grow [OF wf] show ?thesis by auto
qed (use h in \<open>auto simp: fs_release_def dest: lookup_grow\<close>)

lemma run_grow:
  "inode_wf (inodes fs) \<Longrightarrow> fs_run x full reqs fs w = Some (rs, fs', w') \<Longrightarrow>
   inodes_grow (inodes fs) (inodes fs')"
proof (induction reqs arbitrary: rs fs w)
  case (Cons q qs)
  obtain r fs1 w1 where q: "fs_handle x full q fs w = Some (r, fs1, w1)"
    using Cons.prems(2) by (auto split: option.splits)
  then obtain rs1 where rest: "fs_run x full qs fs1 w1 = Some (rs1, fs', w')"
    using Cons.prems(2) by auto
  note grow = handle_grow [OF Cons.prems(1) q]
  then have "inode_wf (inodes fs1)" using Cons.prems(1) by (simp add: inodes_grow_def)
  then show ?case using Cons.IH rest grow inodes_grow_trans by blast
qed simp

section \<open>Lookup\<close>

text \<open>Whether the object of a plan is in the listing of its parent, or the listing's error.\<close>

definition listed ::
  "'w env \<Rightarrow> query_plan \<Rightarrow> 'client clickfs \<Rightarrow> 'w \<Rightarrow> clickfs_error + bool" where
  "listed e p fs w =
     (let d = the (p_db p); t = the (p_table p) in
      case p_kind p of
        Root \<Rightarrow> Ok True
      | DbNamespace \<Rightarrow> Ok True
      | ListTables \<Rightarrow> map_sum id (\<lambda>ns. d \<in> set ns) (fst (fetch_databases e fs w))
      | StreamPartition s \<Rightarrow> map_sum id (\<lambda>ns. s \<in> set ns) (fst (fetch_partitions e d t fs w))
      | _ \<Rightarrow> map_sum id (\<lambda>ns. t \<in> set ns) (fst (fetch_tables e d fs w)))"

lemma check_listed_fst:
  "fst (check_listed n q) =
     (case map_sum id (\<lambda>ns. n \<in> set ns) (fst q) of
        Inl err \<Rightarrow> Err err | Inr b \<Rightarrow> if b then Ok () else Err NotFound)"
  by (cases q) (auto simp: check_listed_def split: sum.splits)

lemma verify_listed:
  assumes "plan_wf p"
  shows "fst (verify_plan_exists e p fs w) =
     (case listed e p fs w of Inl err \<Rightarrow> Err err | Inr b \<Rightarrow> if b then Ok () else Err NotFound)"
  using assms
  by (auto simp: verify_plan_exists_def listed_def plan_wf_def check_listed_fst Let_def
      split: plan_kind.splits)

lemma attr_same: "same_but_caches fs fs' \<Longrightarrow> attr_for_plan fs' i p = attr_for_plan fs i p"
  by (simp add: same_but_caches_def attr_for_plan_def dir_attr_def file_attr_of_def)

lemma attr_ino [simp]: "fa_ino (attr_for_plan fs i p) = i"
  by (simp add: attr_for_plan_def dir_attr_def file_attr_of_def)

lemma dir_attr_ino [simp]: "fa_ino (dir_attr fs i) = i"
  by (simp add: dir_attr_def)

lemma lookup_listed:
  assumes pp: "path_of fs parent = Ok pp" and name: "utf8_valid name"
    and res: "resolve (path_join pp name) = Ok p"
  shows "case listed (x_env x) p fs w of
      Inl err \<Rightarrow> \<exists>fs' w'. fs_lookup x parent name fs w = Some (Err (to_errno err), fs', w')
        \<and> same_but_caches fs fs'
    | Inr False \<Rightarrow> \<exists>fs' w'. fs_lookup x parent name fs w = Some (Err ENOENT, fs', w')
        \<and> same_but_caches fs fs'
    | Inr True \<Rightarrow> (case inode_allocate (x_hash x) (path_join pp name) (inodes fs) of
          Some (i, t) \<Rightarrow> \<exists>fs' w'. fs_lookup x parent name fs w = Some (Ok (attr_for_plan fs i p), fs', w')
        | None \<Rightarrow> fs_lookup x parent name fs w = None)"
proof -
  obtain r fs1 w1 where v: "verify_plan_exists (x_env x) p fs w = (r, fs1, w1)"
    using prod_cases3 by blast
  have same: "same_but_caches fs fs1" using v by (rule verify_same)
  then have ino: "inodes fs1 = inodes fs" by (simp add: same_but_caches_def)
  have r: "r = (case listed (x_env x) p fs w of Inl err \<Rightarrow> Err err | Inr b \<Rightarrow> if b then Ok () else Err NotFound)"
    using verify_listed [OF resolve_wf [OF res], of "x_env x" fs w] v by simp
  note lk = fs_lookup_def to_str_def Let_def
  show ?thesis
  proof (cases "listed (x_env x) p fs w")
    case (Inl err)
    with r same v pp name res show ?thesis by (simp add: lk)
  next
    case (Inr b)
    show ?thesis
    proof (cases b)
      case True
      with Inr r v pp name res ino attr_same [OF same] show ?thesis
        by (simp add: lk split: option.splits)
    next
      case False
      with Inr r same v pp name res show ?thesis by (simp add: lk)
    qed
  qed
qed

lemma lookup_not_resolved:
  assumes "path_of fs parent = Ok pp" and "utf8_valid name" and "resolve (path_join pp name) = Err err"
  shows "fs_lookup x parent name fs w = Some (Err ENOENT, fs, w)"
  using assms resolve_err [OF assms(3)] by (simp add: fs_lookup_def to_str_def Let_def)

text \<open>The reply to a successful lookup.\<close>

lemma lookup_ok:
  assumes "fs_lookup x parent name fs w = Some (Ok a, fs', w')"
  obtains pp p i t fs1 where "path_of fs parent = Ok pp" and "resolve (path_join pp name) = Ok p"
    and "same_but_caches fs fs1" and "fs' = fs1\<lparr>inodes := t\<rparr>" and "a = attr_for_plan fs i p"
    and "inode_allocate (x_hash x) (path_join pp name) (inodes fs) = Some (i, t)"
    and "fst (verify_plan_exists (x_env x) p fs w) = Ok ()"
proof -
  from assms obtain pp p fs1 i t where
    1: "path_of fs parent = Ok pp" "resolve (path_join pp name) = Ok p"
      "verify_plan_exists (x_env x) p fs w = (Ok (), fs1, w')"
      "inode_allocate (x_hash x) (path_join pp name) (inodes fs1) = Some (i, t)"
      "a = attr_for_plan fs1 i p" "fs' = fs1\<lparr>inodes := t\<rparr>"
    by (auto simp: fs_lookup_def to_str_def Let_def
        split: sum.splits option.splits prod.splits if_splits)
  have same: "same_but_caches fs fs1" using 1(3) by (rule verify_same)
  then have "inodes fs1 = inodes fs" by (simp add: same_but_caches_def)
  with 1 same attr_same [OF same] that show thesis by simp
qed

lemma components_root_resolve: "components path = [RootDir] \<Longrightarrow> resolve path = Ok (mk_plan Root None None)"
  by (simp add: resolve_def path_comps_def List.map_filter_def)

lemma lookup_getattr:
  assumes wf: "inode_wf (inodes fs)" and l: "fs_lookup x parent name fs w = Some (Ok a, fs', w')"
  shows "fs_getattr (fa_ino a) fs' = Ok a"
proof -
  from l obtain pp p i t fs1 where
    1: "resolve (path_join pp name) = Ok p" "same_but_caches fs fs1"
      "fs' = fs1\<lparr>inodes := t\<rparr>" "a = attr_for_plan fs i p"
      "inode_allocate (x_hash x) (path_join pp name) (inodes fs) = Some (i, t)"
    by (rule lookup_ok)
  have attr: "attr_for_plan fs' j q = attr_for_plan fs j q" for j q
    using 1(2,3) by (simp add: same_but_caches_def attr_for_plan_def dir_attr_def file_attr_of_def)
  show ?thesis
  proof (cases "i = INO_ROOT")
    case True
    then have "components (path_join pp name) = [RootDir]"
      using inode_allocate_root_iff [OF wf 1(5)] by simp
    then have "p = mk_plan Root None None" using 1(1) components_root_resolve by simp
    then show ?thesis
      using True 1(4) attr [of i p] by (simp add: fs_getattr_def attr_for_plan_def)
  next
    case False
    obtain q where "inode_lookup t i = Some q" "path_eq q (path_join pp name)"
      using inode_allocate_lookup [OF wf 1(5)] by blast
    then have "path_of fs' i = Ok q" and "resolve q = Ok p"
      using 1(1,3) resolve_path_cong by (simp_all add: path_of_def)
    with False 1(4) attr show ?thesis by (simp add: fs_getattr_def)
  qed
qed

text \<open>The parts of a directory reply.\<close>

lemma readdir_ok:
  assumes "fs_readdir x full i offset fs w = Some (Ok out, fs', w')"
  obtains path p es fs1 t where "path_of fs i = Ok path" and "resolve path = Ok p"
    and "dir_entries (x_env x) p fs w = (Ok es, fs1, w')" and "fs' = fs1\<lparr>inodes := t\<rparr>"
    and "emit_entries (x_hash x) full i path (unat offset) (drop (unat offset) es) [] (inodes fs)
           = Some (out, t)"
proof -
  from assms obtain path p es fs1 t where
    1: "path_of fs i = Ok path" "resolve path = Ok p"
      "dir_entries (x_env x) p fs w = (Ok es, fs1, w')" "fs' = fs1\<lparr>inodes := t\<rparr>"
      "emit_entries (x_hash x) full i path (unat offset) (drop (unat offset) es) [] (inodes fs1)
        = Some (out, t)"
    by (auto simp: fs_readdir_def split: sum.splits option.splits prod.splits)
  have "inodes fs1 = inodes fs"
    using dir_entries_same [OF 1(3)] by (simp add: same_but_caches_def)
  with 1 that show thesis by simp
qed

lemma readdir_page:
  assumes "inode_wf (inodes fs)" and "fs_readdir x full i offset fs w = Some (Ok out, fs', w')"
  shows "\<exists>path p es. path_of fs i = Ok path \<and> resolve path = Ok p
    \<and> fst (dir_entries (x_env x) p fs w) = Ok es
    \<and> map (\<lambda>d. (de_kind d, de_name d)) out = take (length out) (drop (unat offset) es)
    \<and> (\<forall>j < length out. de_offset (out ! j) = offset + word_of_nat (j + 1))
    \<and> ((\<forall>a d. \<not> full a d) \<longrightarrow> length out = length es - unat offset)"
proof -
  obtain path p es fs1 t where
    1: "path_of fs i = Ok path" "resolve path = Ok p"
      "dir_entries (x_env x) p fs w = (Ok es, fs1, w')"
      "emit_entries (x_hash x) full i path (unat offset) (drop (unat offset) es) [] (inodes fs)
        = Some (out, t)"
    using assms(2) by (rule readdir_ok)
  from emit_entries_result [OF 1(4) assms(1)]
  have "map (\<lambda>d. (de_kind d, de_name d)) out = take (length out) (drop (unat offset) es)"
    and "\<forall>j < length out. de_offset (out ! j) = word_of_nat (unat offset + j + 1)"
    and "(\<forall>a d. \<not> full a d) \<longrightarrow> length out = length (drop (unat offset) es)"
    by auto
  with 1 show ?thesis by (simp add: ac_simps)
qed

lemma readdir_entry:
  assumes wf: "inode_wf (inodes fs)" and r: "fs_readdir x full i offset fs w = Some (Ok out, fs', w')"
    and d: "dent \<in> set out" and nd: "de_name dent \<noteq> ''.''" "de_name dent \<noteq> ''..''"
  shows "\<exists>path q. inode_lookup (inodes fs) i = Some path \<and>
    inode_lookup (inodes fs') (de_ino dent) = Some q \<and> path_eq q (path_join path (de_name dent))"
proof -
  obtain path p es fs1 t where
    1: "path_of fs i = Ok path" "fs' = fs1\<lparr>inodes := t\<rparr>"
      "emit_entries (x_hash x) full i path (unat offset) (drop (unat offset) es) [] (inodes fs)
        = Some (out, t)"
    using r by (rule readdir_ok)
  have "list_all (entry_ok i path t) out"
    using emit_entries_result [OF 1(3) wf] by simp
  with d nd 1 show ?thesis
    by (auto simp: list_all_iff entry_ok_def path_of_def split: option.splits)
qed

text \<open>A lookup at any later time of the session gives the inode that \<open>readdir\<close> reported.\<close>

lemma readdir_lookup_same_ino:
  assumes wf: "inode_wf (inodes fs)" and r: "fs_readdir x full i offset fs w = Some (Ok out, fs1, w1)"
    and d: "dent \<in> set out" and nd: "de_name dent \<noteq> ''.''" "de_name dent \<noteq> ''..''"
    and run: "fs_run x full' reqs fs1 w2 = Some (rs, fs2, w3)"
    and l: "fs_lookup x i (de_name dent) fs2 w4 = Some (Ok a, fs3, w5)"
  shows "fa_ino a = de_ino dent"
proof -
  obtain path q where
    1: "inode_lookup (inodes fs) i = Some path" "inode_lookup (inodes fs1) (de_ino dent) = Some q"
      "path_eq q (path_join path (de_name dent))"
    using readdir_entry [OF wf r d nd] by blast
  note g1 = readdir_grow [OF wf r]
  then have wf1: "inode_wf (inodes fs1)" using wf by (simp add: inodes_grow_def)
  note g2 = run_grow [OF wf1 run]
  then have wf2: "inode_wf (inodes fs2)" using wf1 by (simp add: inodes_grow_def)
  have path: "inode_lookup (inodes fs2) i = Some path"
    using 1(1) g1 g2 wf wf1 by (simp add: inodes_grow_def)
  have ent: "inode_lookup (inodes fs2) (de_ino dent) = Some q"
    using 1(2) g2 wf1 by (simp add: inodes_grow_def)
  from l obtain pp p j t fs4 where
    2: "path_of fs2 i = Ok pp" "a = attr_for_plan fs2 j p"
      "inode_allocate (x_hash x) (path_join pp (de_name dent)) (inodes fs2) = Some (j, t)"
    by (rule lookup_ok)
  have "pp = path" using 2(1) path by (simp add: path_of_def)
  with 2(3) inode_allocate_known [OF wf2 ent 1(3), of "x_hash x"] have "j = de_ino dent" by simp
  with 2(2) show ?thesis by simp
qed

section \<open>Every request is answered\<close>

lemma emit_entries_returns:
  assumes "inode_wf t" and "inode_count t + length es < 2 ^ 64"
  shows "emit_entries h full dir path i es acc t \<noteq> None"
  using assms
proof (induction es arbitrary: i acc t)
  case (Cons e es)
  obtain k n where e: "e = (k, n)" by fastforce
  have "\<exists>c t1. (if n = ''.'' \<or> n = ''..'' then Some (dir, t) else inode_allocate h (path_join path n) t)
      = Some (c, t1) \<and> inode_wf t1 \<and> inode_count t1 \<le> inode_count t + 1"
  proof (cases "n = ''.'' \<or> n = ''..''")
    case False
    obtain c t1 where "inode_allocate h (path_join path n) t = Some (c, t1)"
      using inode_allocate_returns [OF Cons.prems(1)] Cons.prems(2) by fastforce
    with False show ?thesis
      using inode_allocate_wf [OF Cons.prems(1)] inode_allocate_count [OF Cons.prems(1)] by auto
  qed (use Cons.prems in auto)
  then obtain c t1 where
    c: "(if n = ''.'' \<or> n = ''..'' then Some (dir, t) else inode_allocate h (path_join path n) t)
        = Some (c, t1)" "inode_wf t1" "inode_count t1 \<le> inode_count t + 1" by blast
  have "emit_entries h full dir path (i + 1) es a t1 \<noteq> None" for a
    using c(2,3) Cons.prems(2) by (intro Cons.IH) simp_all
  then show ?case using c(1) by (simp add: e Let_def)
qed simp

text \<open>The number of entries in the listing of a directory, zero for what is not a directory.\<close>

definition listing_length :: "'w env \<Rightarrow> u64 \<Rightarrow> 'client clickfs \<Rightarrow> 'w \<Rightarrow> nat" where
  "listing_length e i fs w =
     (case path_of fs i of
        Inl _ \<Rightarrow> 0
      | Inr path \<Rightarrow>
         (case resolve path of
            Inl _ \<Rightarrow> 0
          | Inr p \<Rightarrow> (case fst (dir_entries e p fs w) of Inl _ \<Rightarrow> 0 | Inr es \<Rightarrow> length es)))"

lemma readdir_returns:
  assumes wf: "inode_wf (inodes fs)"
    and room: "inode_count (inodes fs) + listing_length (x_env x) i fs w < 2 ^ 64"
  shows "fs_readdir x full i offset fs w \<noteq> None"
proof (cases "path_of fs i")
  case path: (Inr path)
  show ?thesis
  proof (cases "resolve path")
    case p: (Inr p)
    obtain r fs1 w1 where d: "dir_entries (x_env x) p fs w = (r, fs1, w1)" using prod_cases3 by blast
    have same: "inodes fs1 = inodes fs"
      using dir_entries_same [OF d] by (simp add: same_but_caches_def)
    show ?thesis
    proof (cases r)
      case (Inr es)
      have "emit_entries (x_hash x) full i path (unat offset) (drop (unat offset) es) [] (inodes fs) \<noteq> None"
        by (rule emit_entries_returns [OF wf])
          (use room path p d Inr in \<open>simp add: listing_length_def\<close>)
      then show ?thesis using path p d Inr same by (auto simp: fs_readdir_def)
    qed (use path p d in \<open>simp add: fs_readdir_def\<close>)
  qed (use path in \<open>simp add: fs_readdir_def\<close>)
qed (simp add: fs_readdir_def)

lemma lookup_returns:
  assumes "inode_wf (inodes fs)" and "inode_count (inodes fs) < 2 ^ 64"
  shows "fs_lookup x parent name fs w \<noteq> None"
proof -
  have no: False if "inode_allocate (x_hash x) path (inodes fs) = None" for path
    using inode_allocate_returns [OF assms, of "x_hash x" path] that by auto
  show ?thesis
    by (auto simp: fs_lookup_def Let_def same_but_caches_def dest!: verify_same dest: no
        split: sum.splits option.splits prod.splits)
qed

lemma handle_returns:
  assumes "inode_wf (inodes fs)"
    and "\<And>i. inode_count (inodes fs) + listing_length (x_env x) i fs w < 2 ^ 64"
  shows "fs_handle x full req fs w \<noteq> None"
proof -
  have "inode_count (inodes fs) < 2 ^ 64" using assms(2) [of 0] by simp
  then show ?thesis
    using lookup_returns [OF assms(1)] readdir_returns [OF assms(1) assms(2)]
    by (cases req) simp_all
qed

section \<open>The order of the tail query\<close>

lemma tail_order_cases:
  "tail_order_of j res = ''tuple()''
   \<or> (\<exists>body v k. res = Ok body \<and> js_from_str j (case str_lines body of l # _ \<Rightarrow> l | [] \<Rightarrow> []) = Some v
        \<and> k \<in> {''primary_key'', ''sorting_key''} \<and> tail_order_of j res = js_str_or_empty j v k
        \<and> str_trim (js_str_or_empty j v k) \<noteq> [])"
  by (auto simp: tail_order_of_def Let_def split: sum.splits option.splits)

section \<open>File handles\<close>

definition handles_below :: "'client clickfs \<Rightarrow> bool" where
  "handles_below fs \<longleftrightarrow> fmpred (\<lambda>fh _. unat fh < unat (fh_counter fs)) (handles fs)"

fun opened :: "reply list \<Rightarrow> u64 list" where
  "opened [] = []"
| "opened (RepOpen (Inr (fh, _)) # rs) = fh # opened rs"
| "opened (_ # rs) = opened rs"

lemma opened_Cons: "opened (r # rs) = (case r of RepOpen (Inr (fh, _)) \<Rightarrow> fh # opened rs | _ \<Rightarrow> opened rs)"
  by (cases r) (auto split: sum.splits prod.splits)

lemma opened_reply [simp]:
  "opened [open_reply (Ok fh)] = [fh]" "opened [open_reply (Err err)] = []"
  "opened [entry_reply q] = []" "opened [attr_reply q] = []"
  by (simp_all add: open_reply_def entry_reply_def attr_reply_def)

lemma open_cases:
  assumes "fs_open x i flags fs w = (r, fs', w')"
  obtains (fail) err where "r = Err err" and "handles fs' = handles fs"
      and "fh_counter fs' = fh_counter fs \<or> fh_counter fs' = fh_counter fs + 1"
  | (ok) hdl where "r = Ok (fh_counter fs)" and "fh_counter fs' = fh_counter fs + 1"
      and "handles fs' = fmupd (fh_counter fs) hdl (handles fs)"
proof (cases "and flags O_ACCMODE = O_RDONLY")
  case False
  with assms have "r = Err EROFS" and "fs' = fs" by (simp_all add: fs_open_def)
  then show thesis by (intro fail) simp_all
next
  case acc: True
  show thesis
  proof (cases "path_of fs i")
    case (Inl err)
    with assms acc have "r = Err (to_errno err)" and "fs' = fs" by (simp_all add: fs_open_def)
    then show thesis by (intro fail) simp_all
  next
    case path: (Inr path)
    show thesis
    proof (cases "resolve path")
      case (Inl err)
      with assms acc path have "r = Err (to_errno err)" and "fs' = fs" by (simp_all add: fs_open_def)
      then show thesis by (intro fail) simp_all
    next
      case p: (Inr p)
      obtain q w1 where q: "open_handle x p (fs\<lparr>fh_counter := fh_counter fs + 1\<rparr>) w = (q, w1)"
        by fastforce
      show thesis
      proof (cases q)
        case (Inl err)
        with assms acc path p q show thesis by (intro fail [of err]) (auto simp: fs_open_def Let_def)
      next
        case (Inr hdl)
        with assms acc path p q show thesis by (intro ok [of hdl]) (auto simp: fs_open_def Let_def)
      qed
    qed
  qed
qed

text \<open>How one request changes the handles.\<close>

lemma handle_step_handles:
  assumes "fs_handle x full req fs w = Some (r, fs', w')"
  shows "(opened [r] = [] \<and> (fh_counter fs' = fh_counter fs \<or> fh_counter fs' = fh_counter fs + 1)
       \<and> fset (fmdom (handles fs')) \<subseteq> fset (fmdom (handles fs)))
    \<or> (opened [r] = [fh_counter fs] \<and> fh_counter fs' = fh_counter fs + 1
       \<and> fset (fmdom (handles fs')) = insert (fh_counter fs) (fset (fmdom (handles fs))))"
proof (cases req)
  case (ReqOpen i flags)
  obtain q where "fs_open x i flags fs w = (q, fs', w')" and "r = open_reply q"
    using assms ReqOpen by (cases "fs_open x i flags fs w") auto
  then show ?thesis by (auto elim!: open_cases)
next
  case (ReqRead fh offset sz)
  obtain q where q: "fs_read (x_env x) fh offset sz fs w = (q, fs', w')" and r: "r = RepData q"
    using assms ReqRead by (cases "fs_read (x_env x) fh offset sz fs w") auto
  then have "fh_counter fs' = fh_counter fs \<and> fset (fmdom (handles fs')) = fset (fmdom (handles fs))"
    by (auto simp: fs_read_def fmlookup_dom_iff split: option.splits file_handle.splits prod.splits)
  with r show ?thesis by simp
next
  case (ReqLookup parent name)
  then obtain q where "fs_lookup x parent name fs w = Some (q, fs', w')" and "r = entry_reply q"
    using assms by auto
  then show ?thesis
    by (auto simp: fs_lookup_def Let_def same_but_caches_def dest!: verify_same
        split: sum.splits option.splits prod.splits)
next
  case (ReqReaddir i offset)
  then obtain q where "fs_readdir x full i offset fs w = Some (q, fs', w')" and "r = RepDir q"
    using assms by auto
  then show ?thesis
    by (auto simp: fs_readdir_def Let_def same_but_caches_def dest!: dir_entries_same
        split: sum.splits option.splits prod.splits)
qed (use assms in \<open>auto simp: fs_release_def\<close>)

lemma unat_Suc_u64: "unat (c :: u64) + 1 < 2 ^ 64 \<Longrightarrow> unat (c + 1) = unat c + 1"
  by (simp add: unat_word_ariths)

lemma run_opened:
  assumes "fs_run x full reqs fs w = Some (rs, fs', w')"
    and "unat (fh_counter fs) + length reqs < 2 ^ 64"
  shows "distinct (opened rs) \<and> (\<forall>fh \<in> set (opened rs). unat (fh_counter fs) \<le> unat fh)"
  using assms
proof (induction reqs arbitrary: rs fs w)
  case (Cons q qs)
  obtain r fs1 w1 where q: "fs_handle x full q fs w = Some (r, fs1, w1)"
    using Cons.prems(1) by (auto split: option.splits)
  then obtain rs1 where rest: "fs_run x full qs fs1 w1 = Some (rs1, fs', w')" and rs: "rs = r # rs1"
    using Cons.prems(1) by auto
  have app: "opened (r # rs1) = opened [r] @ opened rs1"
    by (auto simp: opened_Cons [of r] split: reply.splits sum.splits prod.splits)
  have next_fh: "unat (fh_counter fs + 1) = unat (fh_counter fs) + 1"
    using Cons.prems(2) by (intro unat_Suc_u64) simp
  from handle_step_handles [OF q] show ?case
  proof (elim disjE conjE)
    assume o: "opened [r] = []" and c: "fh_counter fs1 = fh_counter fs"
    then show ?thesis using Cons.IH [OF rest] Cons.prems(2) app rs by simp
  next
    assume o: "opened [r] = []" and c: "fh_counter fs1 = fh_counter fs + 1"
    then show ?thesis using Cons.IH [OF rest] Cons.prems(2) app rs next_fh by fastforce
  next
    assume o: "opened [r] = [fh_counter fs]" and c: "fh_counter fs1 = fh_counter fs + 1"
    then have "distinct (opened rs1)" and "\<forall>fh \<in> set (opened rs1). unat (fh_counter fs) < unat fh"
      using Cons.IH [OF rest] Cons.prems(2) next_fh by fastforce+
    then show ?thesis using app o rs by (simp add: less_imp_le_nat) blast
  qed
qed simp

text \<open>A request that names one handle leaves the others alone.\<close>

lemma read_other:
  assumes "fs_read e fh offset sz fs w = (r, fs', w')" and "fh' \<noteq> fh"
  shows "fmlookup (handles fs') fh' = fmlookup (handles fs) fh'"
  using assms by (auto simp: fs_read_def split: option.splits file_handle.splits prod.splits)

lemma release_handles:
  "fmlookup (handles (fst (fs_release e fh fs w))) fh' =
     (if fh' = fh then None else fmlookup (handles fs) fh')"
  by (simp add: fs_release_def)

lemma read_unknown: "fmlookup (handles fs) fh = None \<Longrightarrow> fs_read e fh offset sz fs w = (Err EBADF, fs, w)"
  by (simp add: fs_read_def)

section \<open>Cached listings\<close>

lemma fetch_cached_hit:
  assumes "env_now e w = (t, w1)" and "cache_fresh (sel fs) k t = Some (v, t0)"
  shows "\<exists>fs'. fetch_cached sel upd parse e k sql fs w = (Ok v, fs', w1)"
proof -
  have "fst (cache_get (sel fs) k t) = Some v"
    using assms(2) by (simp add: tc.get_fresh)
  then obtain c where "cache_get (sel fs) k t = (Some v, c)" by (metis prod.collapse)
  with assms(1) show ?thesis by (simp add: fetch_cached_def)
qed

text \<open>After a miss the parsed answer is stored under the time of the insertion.\<close>

lemma fetch_cached_miss:
  assumes lens: "cache_lens sel upd" and now: "env_now e w = (t, w1)"
    and miss: "cache_fresh (sel fs) k t = None"
    and q: "query_text e (f_driver fs) sql w1 = (Ok body, w2)" and now2: "env_now e w2 = (t2, w3)"
  shows "\<exists>fs'. fetch_cached sel upd parse e k sql fs w = (Ok (parse body), fs', w3)
    \<and> (\<forall>t'. t2 \<le> t' \<and> t' - t2 \<le> cttl (sel fs) \<longrightarrow> cache_fresh (sel fs') k t' = Some (parse body, t2))"
proof -
  have "fst (cache_get (sel fs) k t) = None"
    using miss by (simp add: tc.get_fresh)
  then obtain c where c: "cache_get (sel fs) k t = (None, c)" by (metis prod.collapse)
  have ttl: "cttl c = cttl (sel fs)" using tc.get_ttl [of "sel fs" k t] c by simp
  let ?fs = "upd (cache_insert c k (parse body) t2) (upd c fs)"
  have "fetch_cached sel upd parse e k sql fs w = (Ok (parse body), ?fs, w3)"
    using now c q now2 lens by (simp add: fetch_cached_def Let_def cache_lens_def)
  moreover have "sel ?fs = cache_insert c k (parse body) t2"
    using lens by (simp add: cache_lens_def)
  ultimately show ?thesis using ttl by (simp add: tc.insert_fresh)
qed

section \<open>Content\<close>

text \<open>
  A client that reads a file handle from the front, with buffers of the given sizes, until a read
  is empty or fails (\<open>cat\<close>).
\<close>

fun fs_cat :: "'w env \<Rightarrow> u64 \<Rightarrow> i64 \<Rightarrow> u32 list \<Rightarrow> 'client clickfs \<Rightarrow> 'w \<Rightarrow>
    bytes \<times> errno option \<times> 'client clickfs \<times> 'w" where
  "fs_cat e fh off [] fs w = ([], None, fs, w)"
| "fs_cat e fh off (n # ns) fs w =
     (case fs_read e fh off n fs w of
        (Inl x, fs', w') \<Rightarrow> ([], Some x, fs', w')
      | (Inr b, fs', w') \<Rightarrow>
          if b = [] then ([], None, fs', w')
          else (case fs_cat e fh (off + len_u64 b) ns fs' w' of (bs, x, fs'', w'') \<Rightarrow> (b @ bs, x, fs'', w'')))"

lemma i64_max0_small: "unat (x :: i64) < 2 ^ 63 \<Longrightarrow> i64_max0 x = x"
proof -
  assume "unat x < 2 ^ 63"
  then have "unat x < 9223372036854775808" by simp
  then have "int (unat x) < 9223372036854775808" by linarith
  then have "uint x < 2 ^ 63" by simp
  then have "sint x = uint x"
    unfolding sint_uint
    by (intro signed_take_bit_int_eq_self) (use order_trans [of "- (2 ^ 63)" 0 "uint x"] in simp_all)
  then show ?thesis by (simp add: i64_max0_def)
qed

lemma unat_pos_nz: "(0 :: u32) < n \<Longrightarrow> 0 < unat n"
  by (simp add: unat_gt_0 word_gt_0)

text \<open>An opened stream is read as the sequential source \<open>fwd\<close>.\<close>

lemma fs_cat_stream:
  assumes "fmlookup (handles fs) fh = Some (HStream s)" and "fwd_inv (sh_inner s)"
    and "unat (pos (sh_inner s)) + length (fwd_rest (sh_inner s)) < 2 ^ 63"
    and "list_all ((<) 0) ns"
  shows "\<exists>fs'. fs_cat e fh (pos (sh_inner s)) ns fs w =
     (fst (cat_seq cursor_read (sh_inner s) (map unat ns)),
      map_option to_errno (fst (snd (cat_seq cursor_read (sh_inner s) (map unat ns)))), fs', w)"
  using assms
proof (induction ns arbitrary: s fs)
  case (Cons n ns)
  let ?g = "sh_inner s"
  have n: "0 < unat n" using Cons.prems(4) unat_pos_nz by simp
  have off: "i64_max0 (pos ?g) = pos ?g" using Cons.prems(3) by (intro i64_max0_small) simp
  obtain r g where r: "cursor_read ?g (unat n) = (r, g)" by fastforce
  let ?s = "s\<lparr>sh_inner := g\<rparr>"
  let ?fs = "fs\<lparr>handles := fmupd fh (HStream ?s) (handles fs)\<rparr>"
  have rd: "fs_read e fh (pos ?g) n fs w =
      ((case r of Inr buf \<Rightarrow> Ok buf | Inl err \<Rightarrow> Err (to_errno err)), ?fs, w)"
    using read_blocking_cursor [OF Cons.prems(2) r, of e w] Cons.prems(1) off
    by (simp add: fs_read_def)
  show ?case
  proof (cases r)
    case (Inl x)
    then show ?thesis using rd r by simp
  next
    case (Inr b)
    show ?thesis
    proof (cases "b = []")
      case True
      then show ?thesis using rd r Inr by simp
    next
      case False
      have ne: "fwd_rest ?g \<noteq> []"
        using fwd.rd_eof [OF Cons.prems(2) n] fwd.rd_err [OF Cons.prems(2) n] r Inr False
        by (cases "map_option Query (fwd_err ?g)") auto
      have g: "b = take (unat n) (fwd_rest ?g)" "fwd_rest g = drop (unat n) (fwd_rest ?g)" "fwd_inv g"
        using fwd.rd_data [OF Cons.prems(2) n ne] r Inr by auto
      have pos: "pos g = pos ?g + len_u64 b"
        using cursor_read_pos [OF Cons.prems(2) n] r Inr by simp
      have "unat (pos g) = unat (pos ?g) + length b"
        unfolding pos using Cons.prems(3) g(1) by (simp add: unat_len_u64 u64_add_no_wrap)
      then have bound: "unat (pos g) + length (fwd_rest g) < 2 ^ 63"
        using Cons.prems(3) g(1,2) by simp
      have "\<exists>fs'. fs_cat e fh (pos (sh_inner ?s)) ns ?fs w =
         (fst (cat_seq cursor_read (sh_inner ?s) (map unat ns)),
          map_option to_errno (fst (snd (cat_seq cursor_read (sh_inner ?s) (map unat ns)))), fs', w)"
        using Cons.prems(4) g(3) bound by (intro Cons.IH) simp_all
      then show ?thesis using rd r Inr False pos by (auto split: prod.splits)
    qed
  qed
qed simp

lemma fs_cat_stream_all:
  assumes "fmlookup (handles fs) fh = Some (HStream s)" and "fwd_inv (sh_inner s)"
    and "unat (pos (sh_inner s)) + length (fwd_rest (sh_inner s)) < 2 ^ 63"
    and "list_all ((<) 0) ns" and "length (fwd_rest (sh_inner s)) < length ns"
  shows "\<exists>fs'. fs_cat e fh (pos (sh_inner s)) ns fs w =
     (fwd_rest (sh_inner s), map_option query_errno (fwd_err (sh_inner s)), fs', w)"
proof -
  have "list_all ((<) 0) (map unat ns)"
    using assms(4) unat_pos_nz by (auto simp: list_all_iff)
  then obtain g where "cat_seq cursor_read (sh_inner s) (map unat ns) =
      (fwd_rest (sh_inner s), map_option Query (fwd_err (sh_inner s)), g)"
    using fwd.cat_seq_all [OF assms(2), of "map unat ns"] assms(5) by auto
  then show ?thesis
    using fs_cat_stream [OF assms(1-4), of e w]
    by (simp add: option.map_comp comp_def)
qed

text \<open>A file in memory is a sequential source too: its state is the buffer and the next offset.\<close>

definition mem_read :: "bytes \<times> nat \<Rightarrow> nat \<Rightarrow> (errno + bytes) \<times> bytes \<times> nat" where
  "mem_read s n =
     (let b = special_read (fst s) (word_of_nat (snd s)) n in (Ok b, fst s, snd s + length b))"

definition mem_inv :: "bytes \<times> nat \<Rightarrow> bool" where
  "mem_inv s \<longleftrightarrow> snd s \<le> length (fst s) \<and> length (fst s) < 2 ^ 63"

lemma special_read_take:
  assumes "unat offset < 2 ^ 63"
  shows "special_read buf offset n = take n (drop (unat offset) buf)"
  using assms by (auto simp: special_read_def Let_def i64_max0_small min_def)

lemma special_read_negative: "sint offset < 0 \<Longrightarrow> special_read buf offset n = take n buf"
  by (auto simp: special_read_def Let_def i64_max0_def min_def)

lemma mem_read_take:
  assumes "mem_inv s"
  shows "mem_read s n = (Ok (take n (drop (snd s) (fst s))), fst s,
      snd s + length (take n (drop (snd s) (fst s))))"
proof -
  have "unat (word_of_nat (snd s) :: i64) = snd s"
    using assms by (simp add: mem_inv_def unat_of_nat take_bit_nat_eq_self)
  then show ?thesis
    using assms by (simp add: mem_read_def Let_def special_read_take mem_inv_def)
qed

interpretation mem: seq_source mem_read "\<lambda>s. drop (snd s) (fst s)" "\<lambda>_. None" mem_inv
  by unfold_locales (auto simp: mem_read_take mem_inv_def min_def add.commute)

lemma fs_cat_special:
  assumes "fmlookup (handles fs) fh = Some (HSpecial buf)" and "mem_inv (buf, off)"
    and "list_all ((<) 0) ns"
  shows "\<exists>fs'. fs_cat e fh (word_of_nat off) ns fs w =
     (fst (cat_seq mem_read (buf, off) (map unat ns)),
      fst (snd (cat_seq mem_read (buf, off) (map unat ns))), fs', w)"
  using assms
proof (induction ns arbitrary: off)
  case (Cons n ns)
  let ?b = "special_read buf (word_of_nat off) (unat n)"
  have rd: "fs_read e fh (word_of_nat off) n fs w = (Ok ?b, fs, w)"
    using Cons.prems(1) by (simp add: fs_read_def)
  have m: "mem_read (buf, off) (unat n) = (Ok ?b, buf, off + length ?b)"
    by (simp add: mem_read_def Let_def)
  have b: "?b = take (unat n) (drop off buf)"
    using mem_read_take [OF Cons.prems(2), of "unat n"] m by simp
  then have inv: "mem_inv (buf, off + length ?b)"
    using Cons.prems(2) by (auto simp: mem_inv_def)
  have "(word_of_nat off :: i64) + len_u64 ?b = word_of_nat (off + length ?b)"
    by (simp add: len_u64_def)
  then show ?case
    using rd m Cons.IH [OF Cons.prems(1) inv] Cons.prems(3) by (auto split: prod.splits)
qed simp

lemma fs_cat_special_all:
  assumes "fmlookup (handles fs) fh = Some (HSpecial buf)" and "length buf < 2 ^ 63"
    and "list_all ((<) 0) ns" and "length buf < length ns"
  shows "\<exists>fs'. fs_cat e fh 0 ns fs w = (buf, None, fs', w)"
proof -
  have inv: "mem_inv (buf, 0)" using assms(2) by (simp add: mem_inv_def)
  have "list_all ((<) 0) (map unat ns)"
    using assms(3) unat_pos_nz by (auto simp: list_all_iff)
  then obtain s where "cat_seq mem_read (buf, 0) (map unat ns) = (buf, None, s)"
    using mem.cat_seq_all [OF inv, of "map unat ns"] assms(4) by auto
  then show ?thesis
    using fs_cat_special [OF assms(1) inv assms(3), of e w] by simp
qed

section \<open>From open to content\<close>

definition plan_sql :: "query_plan \<Rightarrow> string" where
  "plan_sql p =
     (case p_kind p of
        StreamPartition s \<Rightarrow> sql_stream_partition (the (p_db p)) (the (p_table p)) s
      | _ \<Rightarrow> sql_stream_all (the (p_db p)) (the (p_table p)))"

text \<open>The bytes of a streamed answer up to its first error, and that error.\<close>

definition answer_bytes :: "query_error + item list \<Rightarrow> bytes" where
  "answer_bytes res = (case res of Inl _ \<Rightarrow> [] | Inr items \<Rightarrow> items_bytes items)"

definition answer_error :: "query_error + item list \<Rightarrow> query_error option" where
  "answer_error res = (case res of Inl e \<Rightarrow> Some e | Inr items \<Rightarrow> items_err items)"

lemma items_upto_err [simp]:
  "items_bytes (upto_err s) = items_bytes s" "items_err (upto_err s) = items_err s"
  by (induction s rule: upto_err.induct) auto

lemma task_items_answer:
  "items_bytes (task_items res) = answer_bytes res" "items_err (task_items res) = answer_error res"
  by (cases res; simp add: answer_bytes_def answer_error_def)+

lemma inner_new_rest:
  "fwd_rest (inner_new items) = items_bytes items" "fwd_err (inner_new items) = items_err items"
  "pos (inner_new items) = 0" "fwd_inv (inner_new items)"
  by (simp_all add: fwd_rest_def fwd_err_def inner_new_def fwd_inv_def inner_inv_def below_window_def)

lemma spawn_result:
  assumes "stream_spawn e d sql tail w = (s, w')"
  shows "\<exists>res w0. query_stream_with_id e d sql (Some (sh_query_id s)) w0 = (res, w')
    \<and> sh_inner s = inner_new (task_items res) \<and> sh_tail s = tail \<and> sh_driver s = d"
proof -
  obtain i w1 where i: "env_uuid e w = (i, w1)" by fastforce
  obtain res w2 where q: "query_stream_with_id e d sql (Some (''clickfs-'' @ i)) w1 = (res, w2)"
    by fastforce
  from assms i q have "w2 = w'" and "s = \<lparr>sh_inner = inner_new (task_items res), reverse_warned = False,
      sh_query_id = ''clickfs-'' @ i, sh_driver = d, sh_tail = tail\<rparr>"
    by (simp_all add: stream_spawn_def Let_def)
  with q show ?thesis by auto
qed

definition stream_tail ::
  "('w, 'j) ext \<Rightarrow> string \<Rightarrow> string \<Rightarrow> string option \<Rightarrow> 'client clickfs \<Rightarrow> 'w \<Rightarrow> tail_context option" where
  "stream_tail x d t part fs w =
     (if tail_enabled (f_tail_cfg fs)
      then Some \<lparr>tc_db = d, tc_tbl = t, tc_order_expr = fst (fetch_tail_order_expr x d t fs w),
                 tc_partition = part, tc_cfg = f_tail_cfg fs\<rparr>
      else None)"

lemma open_stream_result:
  assumes "open_stream x d t part sql fs w = (hdl, w')"
  shows "\<exists>s res w0. hdl = HStream s \<and> sh_driver s = f_driver fs
    \<and> query_stream_with_id (x_env x) (f_driver fs) sql (Some (sh_query_id s)) w0 = (res, w')
    \<and> sh_inner s = inner_new (task_items res) \<and> sh_tail s = stream_tail x d t part fs w"
proof -
  have "\<exists>s w1. hdl = HStream s
      \<and> stream_spawn (x_env x) (f_driver fs) sql (stream_tail x d t part fs w) w1 = (s, w')"
    using assms
    by (auto simp: open_stream_def stream_tail_def Let_def dest!: apfst_eqD split: if_splits prod.splits)
  then obtain s w1 where s: "hdl = HStream s"
    "stream_spawn (x_env x) (f_driver fs) sql (stream_tail x d t part fs w) w1 = (s, w')" by blast
  from spawn_result [OF s(2)] s(1) show ?thesis by blast
qed

text \<open>A successful open, reduced to the handle that it stores.\<close>

lemma open_ok:
  assumes "fs_open x i flags fs w = (Ok fh, fs', w')" and "path_of fs i = Ok path"
    and "resolve path = Ok p"
  shows "\<exists>hdl. open_handle x p (fs\<lparr>fh_counter := fh_counter fs + 1\<rparr>) w = (Ok hdl, w')
    \<and> fmlookup (handles fs') fh = Some hdl"
proof -
  obtain q w1 where q: "open_handle x p (fs\<lparr>fh_counter := fh_counter fs + 1\<rparr>) w = (q, w1)"
    by fastforce
  show ?thesis
    using assms q by (cases q) (auto simp: fs_open_def Let_def split: if_splits)
qed

definition plan_part :: "query_plan \<Rightarrow> string option" where
  "plan_part p = (case p_kind p of StreamPartition s \<Rightarrow> Some s | _ \<Rightarrow> None)"

lemma open_stream_ok:
  assumes "fs_open x i flags fs w = (Ok fh, fs', w')" and "path_of fs i = Ok path"
    and "resolve path = Ok p" and "is_stream_file p"
  shows "\<exists>s res w0. fmlookup (handles fs') fh = Some (HStream s) \<and> sh_driver s = f_driver fs
    \<and> query_stream_with_id (x_env x) (f_driver fs) (plan_sql p) (Some (sh_query_id s)) w0 = (res, w')
    \<and> sh_inner s = inner_new (task_items res)
    \<and> sh_tail s = stream_tail x (the (p_db p)) (the (p_table p)) (plan_part p) fs w"
proof -
  let ?fs = "fs\<lparr>fh_counter := fh_counter fs + 1\<rparr>"
  from open_ok [OF assms(1-3)] obtain hdl where
    hdl: "open_handle x p ?fs w = (Ok hdl, w')" "fmlookup (handles fs') fh = Some hdl" by blast
  have "open_stream x (the (p_db p)) (the (p_table p)) (plan_part p) (plan_sql p) ?fs w = (hdl, w')"
    using hdl(1) assms(4)
    by (auto simp: open_handle_def plan_sql_def plan_part_def Let_def dest!: apfst_eqD split: plan_kind.splits)
  moreover have "stream_tail x d t part ?fs w = stream_tail x d t part fs w" for d t part
    by (simp add: stream_tail_def fetch_tail_order_expr_def)
  ultimately show ?thesis using open_stream_result [of x _ _ _ "plan_sql p" ?fs w hdl w'] hdl(2) by fastforce
qed

lemma streamed_content:
  assumes op: "fs_open x i flags fs w = (Ok fh, fs1, w1)" and "path_of fs i = Ok path"
    and "resolve path = Ok p" and "is_stream_file p"
  shows "\<exists>res w0 q. query_stream_with_id (x_env x) (f_driver fs) (plan_sql p) (Some q) w0 = (res, w1)
    \<and> (\<forall>ns. list_all ((<) 0) ns \<and> length (answer_bytes res) < length ns
           \<and> length (answer_bytes res) < 2 ^ 63 \<longrightarrow>
         (\<exists>fs2. fs_cat (x_env x) fh 0 ns fs1 w1 =
            (answer_bytes res, map_option query_errno (answer_error res), fs2, w1)))"
proof -
  from open_stream_ok [OF assms] obtain s res w0 where
    1: "fmlookup (handles fs1) fh = Some (HStream s)" "sh_inner s = inner_new (task_items res)"
      "query_stream_with_id (x_env x) (f_driver fs) (plan_sql p) (Some (sh_query_id s)) w0 = (res, w1)"
    by blast
  have "\<exists>fs2. fs_cat (x_env x) fh 0 ns fs1 w1 =
      (answer_bytes res, map_option query_errno (answer_error res), fs2, w1)"
    if "list_all ((<) 0) ns" "length (answer_bytes res) < length ns" "length (answer_bytes res) < 2 ^ 63"
    for ns
    using fs_cat_stream_all [OF 1(1), of ns "x_env x" w1] that
    by (simp add: 1(2) inner_new_rest task_items_answer)
  with 1(3) show ?thesis by blast
qed

text \<open>The text of a special file.\<close>

definition special_text :: "('w, 'j) ext \<Rightarrow> query_plan \<Rightarrow> 'client clickfs \<Rightarrow> 'w \<Rightarrow> (clickfs_error + string) \<times> 'w" where
  "special_text x p fs w =
     (if p_kind p = DescribeTable
      then fetch_describe (x_env x) (the (p_db p)) (the (p_table p)) fs w
      else apfst Ok (render (x_env x) (x_json x) (f_driver fs) (the (p_db p)) (the (p_table p)) w))"

lemma fetch_describe_counter: "fetch_describe e d t (fs\<lparr>fh_counter := c\<rparr>) w = fetch_describe e d t fs w"
  by (simp add: fetch_describe_def)

lemma open_special_ok:
  assumes "fs_open x i flags fs w = (Ok fh, fs1, w1)" and "path_of fs i = Ok path"
    and "resolve path = Ok p" and "\<not> is_stream_file p"
  shows "\<exists>text. special_text x p fs w = (Ok text, w1) \<and> fmlookup (handles fs1) fh = Some (HSpecial text)"
proof -
  from open_ok [OF assms(1-3)] obtain hdl where
    hdl: "open_handle x p (fs\<lparr>fh_counter := fh_counter fs + 1\<rparr>) w = (Ok hdl, w1)"
      "fmlookup (handles fs1) fh = Some hdl" by blast
  have "\<exists>body. hdl = HSpecial body \<and> special_text x p fs w = (Ok body, w1)"
    using hdl(1) assms(4)
    by (auto simp: open_handle_def special_text_def fetch_describe_counter Let_def
        split: prod.splits sum.splits plan_kind.splits)
  with hdl(2) show ?thesis by blast
qed

lemma special_content:
  assumes "fs_open x i flags fs w = (Ok fh, fs1, w1)" and "path_of fs i = Ok path"
    and "resolve path = Ok p" and sp: "is_special_file p"
  shows "\<exists>text. special_text x p fs w = (Ok text, w1)
    \<and> (\<forall>ns. list_all ((<) 0) ns \<and> length text < length ns \<and> length text < 2 ^ 63 \<longrightarrow>
         (\<exists>fs2. fs_cat (x_env x) fh 0 ns fs1 w1 = (text, None, fs2, w1)))"
proof -
  have "\<not> is_stream_file p" using sp by (auto split: plan_kind.splits)
  from open_special_ok [OF assms(1-3) this] obtain body where
    body: "special_text x p fs w = (Ok body, w1)" "fmlookup (handles fs1) fh = Some (HSpecial body)" by blast
  have all: "\<exists>fs2. fs_cat (x_env x) fh 0 ns fs1 w1 = (body, None, fs2, w1)"
    if "list_all ((<) 0) ns" "length body < length ns" "length body < 2 ^ 63" for ns
    using fs_cat_special_all [OF body(2) that(3,1,2)] .
  show ?thesis
    by (intro exI [of _ body] conjI allI impI body(1) all) simp_all
qed

section \<open>Reading the tail\<close>

text \<open>
  The first read far past the cursor, when the server answers the tail query: it is served from the
  reversed answer, aligned with the pseudo end of the file.
\<close>

lemma tail_first_read:
  assumes h: "fmlookup (handles fs) fh = Some (HStream s)" and need: "need_materialize s offset"
    and tc: "sh_tail s = Some tc"
    and q: "query_text e (sh_driver s) (tail_sql tc) w = (Ok body, w')"
    and len: "length body < 2 ^ 63" and off: "unat offset + length body = 2 ^ 63 - 1 + k"
    and k: "k < length body"
  shows "\<exists>fs'. fs_read e fh offset sz fs w = (Ok (take (unat sz) (drop k (reverse_tsv_rows body))), fs', w')"
proof -
  let ?g = "(sh_inner s)\<lparr>tail_attempted := True, tail_buf := Some (reverse_tsv_rows body)\<rparr>"
  have m: "maybe_materialize e s offset w = (s\<lparr>sh_inner := ?g\<rparr>, w')"
    using need tc q by (simp add: maybe_materialize_def materialize_tail_def)
  have ne: "offset \<noteq> pos ?g" using need by (simp add: need_materialize_def Let_def)
  have "tail_read ?g offset (unat sz) = Some (take (unat sz) (drop k (reverse_tsv_rows body)))"
    by (rule tail_read_window) (use len off k in \<open>simp_all add: reverse_tsv_length\<close>)
  then have sv: "serve ?g (reverse_warned s) offset (unat sz) =
      (Ok (take (unat sz) (drop k (reverse_tsv_rows body))), ?g, reverse_warned s)"
    using ne by (simp add: serve_def)
  have small: "i64_max0 offset = offset"
    using off k by (intro i64_max0_small) simp
  show ?thesis
    using h m sv small by (simp add: fs_read_def read_blocking_def)
qed

text \<open>The errno of a failed query reaches the reader of a special file.\<close>

lemma failed_schema_open:
  assumes "query_text (x_env x) (f_driver fs) (sql_describe (the (p_db p)) (the (p_table p))) w = (Err qe, w1)"
    and "and flags O_ACCMODE = O_RDONLY" and "path_of fs i = Ok path" and "resolve path = Ok p"
    and "p_kind p = DescribeTable"
  shows "fst (fs_open x i flags fs w) = Err (query_errno qe)"
  using assms by (simp add: fs_open_def open_handle_def fetch_describe_def Let_def)

section \<open>Rejected requests\<close>

lemma open_write_intent:
  "and flags O_ACCMODE \<noteq> O_RDONLY \<Longrightarrow> fs_open x i flags fs w = (Err EROFS, fs, w)"
  by (simp add: fs_open_def)

text \<open>
  The requests that the read-only file system refuses: an open for writing and the stubbed operations.
  \<open>refused_run\<close> puts their replies back into the replies to the other requests of a session.
\<close>

fun refused :: "request \<Rightarrow> bool" where
  "refused (ReqOpen i flags) \<longleftrightarrow> and flags O_ACCMODE \<noteq> O_RDONLY"
| "refused (ReqMutate m) \<longleftrightarrow> True"
| "refused _ \<longleftrightarrow> False"

fun refusal :: "request \<Rightarrow> reply" where
  "refusal (ReqOpen i flags) = RepOpen (Err EROFS)"
| "refusal _ = RepEmpty (Err EROFS)"

fun with_refusals :: "request list \<Rightarrow> reply list \<Rightarrow> reply list" where
  "with_refusals [] reps = []"
| "with_refusals (q # qs) reps =
     (if refused q then refusal q # with_refusals qs reps
      else (case reps of [] \<Rightarrow> [] | r # rs \<Rightarrow> r # with_refusals qs rs))"

lemma handle_refused: "refused q \<Longrightarrow> fs_handle x full q fs w = Some (refusal q, fs, w)"
  by (cases q) (simp_all add: open_write_intent open_reply_def erofs_stub_def)

lemma run_refused:
  "fs_run x full reqs fs w =
     map_option (apfst (with_refusals reqs)) (fs_run x full (filter (\<lambda>q. \<not> refused q) reqs) fs w)"
proof (induction reqs arbitrary: fs w)
  case (Cons q qs)
  show ?case
  proof (cases "refused q")
    case True
    then show ?thesis
      using Cons.IH [of fs w]
      by (cases "fs_run x full (filter (\<lambda>q. \<not> refused q) qs) fs w") (auto simp: handle_refused)
  next
    case False
    show ?thesis
    proof (cases "fs_handle x full q fs w")
      case None
      with False show ?thesis by simp
    next
      case (Some r)
      obtain rep fs1 w1 where r: "r = (rep, fs1, w1)" using prod_cases3 by blast
      with False Some show ?thesis
        using Cons.IH [of fs1 w1]
        by (cases "fs_run x full (filter (\<lambda>q. \<not> refused q) qs) fs1 w1") auto
    qed
  qed
qed simp

lemma statfs_free:
  assumes "fcard (fmdom (handles fs)) < 2 ^ 63"
  shows "unat (st_ffree (fs_statfs fs)) = 2 ^ 32 - (fcard (fmdom (handles fs)) + 1024)"
proof -
  let ?n = "fcard (fmdom (handles fs))"
  have "unat (word_of_nat ?n + 1024 :: u64) = ?n + 1024"
    using assms by (simp add: unat_word_ariths unat_of_nat)
  moreover have "unat PSEUDO_FILES = 2 ^ 32"
    by (simp add: PSEUDO_FILES_def push_bit_eq_mult)
  ultimately show ?thesis by (simp add: fs_statfs_def Let_def unat_sat_sub)
qed

end
