(* ===== verification/TreeSpec.thy ===== *)
theory TreeSpec
  imports FsProps
begin

text \<open>
  An abstract file system, and the proof that the handlers of \<open>src/fs.rs\<close> refine it.

  The abstract state is a map from inode numbers to the names on the way from the root; its only
  other parameter is the catalogue of the server (its databases, tables and partitions).  There is
  no cache, no clock, no path string, no hash and no probe: \<open>tree_step\<close> says which replies a
  request may get and which numbers it may bind.  The refinement holds for every server whose
  answers, when there are any, are those of the catalogue; with \<open>up\<close> the server always answers, and
  then the replies are those of the tree without exception.
\<close>

section \<open>The catalogue\<close>

record catalog =
  databases :: "string list"
  tables_of :: "string \<Rightarrow> string list"
  partitions_of :: "string \<Rightarrow> string \<Rightarrow> string list"

definition in_catalog :: "catalog \<Rightarrow> query_plan \<Rightarrow> bool" where
  "in_catalog cat p =
     (let d = the (p_db p); t = the (p_table p) in
      case p_kind p of
        Root \<Rightarrow> True
      | DbNamespace \<Rightarrow> True
      | ListTables \<Rightarrow> d \<in> set (databases cat)
      | StreamPartition s \<Rightarrow> s \<in> set (partitions_of cat d t)
      | _ \<Rightarrow> t \<in> set (tables_of cat d))"

definition part_entries :: "string list \<Rightarrow> (file_type \<times> string) list" where
  "part_entries ps = map (\<lambda>s. (RegularFile, s @ ''.tsv'')) ps"

definition tree_children :: "catalog \<Rightarrow> query_plan \<Rightarrow> (file_type \<times> string) list option" where
  "tree_children cat p =
     (let d = the (p_db p); t = the (p_table p) in
      case p_kind p of
        Root \<Rightarrow> Some [(Directory, ''db'')]
      | DbNamespace \<Rightarrow> Some (map (Pair Directory) (databases cat))
      | ListTables \<Rightarrow> Some (map (Pair Directory) (tables_of cat d))
      | ListPartitions \<Rightarrow> Some (table_entries @ part_entries (partitions_of cat d t))
      | _ \<Rightarrow> None)"

text \<open>Every name of the catalogue is the name of a directory entry.\<close>

definition entry_name :: "string \<Rightarrow> bool" where
  "entry_name n \<longleftrightarrow> plain_name n \<and> utf8_valid n"

definition catalog_ok :: "catalog \<Rightarrow> bool" where
  "catalog_ok cat \<longleftrightarrow>
     list_all entry_name (databases cat) \<and> (\<forall>d. list_all entry_name (tables_of cat d))
   \<and> (\<forall>d t. list_all (\<lambda>s. entry_name (s @ ''.tsv'')) (partitions_of cat d t))"

section \<open>The abstract file system\<close>

type_synonym nodes = "u64 \<Rightarrow> string list option"

text \<open>The root of a new file system, and the binding of a name: it keeps its number if it has one.\<close>

definition tree_root :: nodes where "tree_root = [INO_ROOT \<mapsto> []]"

definition binds :: "nodes \<Rightarrow> string list \<Rightarrow> u64 \<Rightarrow> nodes \<Rightarrow> bool" where
  "binds nd ns i nd' \<longleftrightarrow>
     nd' = nd(i \<mapsto> ns) \<and> (nd i = None \<or> nd i = Some ns) \<and> (\<forall>j. nd j = Some ns \<longrightarrow> j = i)"

definition entry_binds :: "u64 \<Rightarrow> string list \<Rightarrow> string \<Rightarrow> nodes \<Rightarrow> u64 \<Rightarrow> nodes \<Rightarrow> bool" where
  "entry_binds dir ns n nd i nd' \<longleftrightarrow>
     (if n = ''.'' \<or> n = ''..'' then i = dir \<and> nd' = nd else binds nd (ns @ [n]) i nd')"

text \<open>A page of a directory; it may end early only when buffers can be full (\<open>short\<close>).\<close>

inductive page ::
  "bool \<Rightarrow> u64 \<Rightarrow> string list \<Rightarrow> nat \<Rightarrow> (file_type \<times> string) list \<Rightarrow> nodes \<Rightarrow> dir_entry list \<Rightarrow> nodes \<Rightarrow> bool"
  for short dir ns where
  last: "page short dir ns k [] nd [] nd"
| full: "short \<Longrightarrow> entry_binds dir ns n nd i nd' \<Longrightarrow> page short dir ns k ((kd, n) # es) nd [] nd'"
| more: "entry_binds dir ns n nd i nd1 \<Longrightarrow> page short dir ns (k + 1) es nd1 out nd' \<Longrightarrow>
    page short dir ns k ((kd, n) # es) nd
      (\<lparr>de_ino = i, de_offset = word_of_nat (k + 1), de_kind = kd, de_name = n\<rparr> # out) nd'"

text \<open>
  One request.  \<open>attr\<close> gives the attributes of a plan under a number.  Without \<open>up\<close> a listing may
  fail: a lookup that needs it and a listing of databases or tables then give the errno of the
  failure, and the listing of a table still shows its three fixed files.
\<close>

definition needs_listing :: "query_plan \<Rightarrow> bool" where
  "needs_listing p \<longleftrightarrow> p_kind p \<noteq> Root \<and> p_kind p \<noteq> DbNamespace"

definition open_allowed :: "query_plan \<Rightarrow> errno + u64 \<Rightarrow> bool" where
  "open_allowed p r \<longleftrightarrow>
     (if is_dir p then r = Err EISDIR
      else if p_kind p = DescribeTable then True
      else \<exists>fh. r = Ok fh)"

inductive tree_step ::
  "catalog \<Rightarrow> (u64 \<Rightarrow> query_plan \<Rightarrow> file_attr) \<Rightarrow> bool \<Rightarrow> bool \<Rightarrow> nodes \<Rightarrow> request \<Rightarrow> reply \<Rightarrow> nodes \<Rightarrow> bool"
  for cat attr up short where
  lookup_stale: "nd parent = None \<Longrightarrow>
    tree_step cat attr up short nd (ReqLookup parent n) (entry_reply (Err ENOENT)) nd"
| lookup_text: "\<not> utf8_valid n \<Longrightarrow>
    tree_step cat attr up short nd (ReqLookup parent n) (entry_reply (Err ENOENT)) nd"
| lookup_name: "nd parent = Some ns \<Longrightarrow> resolve_comps (ns @ [n]) = Err err \<Longrightarrow>
    tree_step cat attr up short nd (ReqLookup parent n) (entry_reply (Err (to_errno err))) nd"
| lookup_absent: "nd parent = Some ns \<Longrightarrow> resolve_comps (ns @ [n]) = Ok p \<Longrightarrow> \<not> in_catalog cat p \<Longrightarrow>
    tree_step cat attr up short nd (ReqLookup parent n) (entry_reply (Err ENOENT)) nd"
| lookup_found: "nd parent = Some ns \<Longrightarrow> resolve_comps (ns @ [n]) = Ok p \<Longrightarrow> in_catalog cat p \<Longrightarrow>
    binds nd (ns @ [n]) i nd' \<Longrightarrow>
    tree_step cat attr up short nd (ReqLookup parent n) (entry_reply (Ok (attr i p))) nd'"
| lookup_failed: "nd parent = Some ns \<Longrightarrow> resolve_comps (ns @ [n]) = Ok p \<Longrightarrow> \<not> up \<Longrightarrow> needs_listing p \<Longrightarrow>
    tree_step cat attr up short nd (ReqLookup parent n) (entry_reply (Err (query_errno qe))) nd"
| getattr_stale: "nd i = None \<Longrightarrow>
    tree_step cat attr up short nd (ReqGetattr i) (attr_reply (Err ENOENT)) nd"
| getattr_name: "nd i = Some ns \<Longrightarrow> resolve_comps ns = Err err \<Longrightarrow>
    tree_step cat attr up short nd (ReqGetattr i) (attr_reply (Err (to_errno err))) nd"
| getattr_known: "nd i = Some ns \<Longrightarrow> resolve_comps ns = Ok p \<Longrightarrow>
    tree_step cat attr up short nd (ReqGetattr i) (attr_reply (Ok (attr i p))) nd"
| readdir_stale: "nd i = None \<Longrightarrow>
    tree_step cat attr up short nd (ReqReaddir i off) (RepDir (Err ENOENT)) nd"
| readdir_name: "nd i = Some ns \<Longrightarrow> resolve_comps ns = Err err \<Longrightarrow>
    tree_step cat attr up short nd (ReqReaddir i off) (RepDir (Err (to_errno err))) nd"
| readdir_file: "nd i = Some ns \<Longrightarrow> resolve_comps ns = Ok p \<Longrightarrow> tree_children cat p = None \<Longrightarrow>
    tree_step cat attr up short nd (ReqReaddir i off) (RepDir (Err ENOTDIR)) nd"
| readdir_page: "nd i = Some ns \<Longrightarrow> resolve_comps ns = Ok p \<Longrightarrow> tree_children cat p = Some es \<Longrightarrow>
    page short i ns (unat off) (drop (unat off) (dots @ es)) nd out nd' \<Longrightarrow>
    tree_step cat attr up short nd (ReqReaddir i off) (RepDir (Ok out)) nd'"
| readdir_fixed: "nd i = Some ns \<Longrightarrow> resolve_comps ns = Ok p \<Longrightarrow> p_kind p = ListPartitions \<Longrightarrow> \<not> up \<Longrightarrow>
    page short i ns (unat off) (drop (unat off) (dots @ table_entries)) nd out nd' \<Longrightarrow>
    tree_step cat attr up short nd (ReqReaddir i off) (RepDir (Ok out)) nd'"
| readdir_failed: "nd i = Some ns \<Longrightarrow> resolve_comps ns = Ok p \<Longrightarrow> \<not> up \<Longrightarrow>
    p_kind p = DbNamespace \<or> p_kind p = ListTables \<Longrightarrow>
    tree_step cat attr up short nd (ReqReaddir i off) (RepDir (Err (query_errno qe))) nd"
| open_write: "and flags O_ACCMODE \<noteq> O_RDONLY \<Longrightarrow>
    tree_step cat attr up short nd (ReqOpen i flags) (open_reply (Err EROFS)) nd"
| open_stale: "and flags O_ACCMODE = O_RDONLY \<Longrightarrow> nd i = None \<Longrightarrow>
    tree_step cat attr up short nd (ReqOpen i flags) (open_reply (Err ENOENT)) nd"
| open_name: "and flags O_ACCMODE = O_RDONLY \<Longrightarrow> nd i = Some ns \<Longrightarrow> resolve_comps ns = Err err \<Longrightarrow>
    tree_step cat attr up short nd (ReqOpen i flags) (open_reply (Err (to_errno err))) nd"
| open_plan: "and flags O_ACCMODE = O_RDONLY \<Longrightarrow> nd i = Some ns \<Longrightarrow> resolve_comps ns = Ok p \<Longrightarrow>
    open_allowed p r \<Longrightarrow> tree_step cat attr up short nd (ReqOpen i flags) (open_reply r) nd"
| read_any: "tree_step cat attr up short nd (ReqRead fh off sz) (RepData r) nd"
| release_any: "tree_step cat attr up short nd (ReqRelease fh) (RepEmpty (Ok ())) nd"
| statfs_any: "tree_step cat attr up short nd ReqStatfs (RepStatfs st) nd"
| mutate_refused: "tree_step cat attr up short nd (ReqMutate m) (RepEmpty (Err EROFS)) nd"

inductive tree_run ::
  "catalog \<Rightarrow> (u64 \<Rightarrow> query_plan \<Rightarrow> file_attr) \<Rightarrow> bool \<Rightarrow> bool \<Rightarrow> nodes \<Rightarrow> request list \<Rightarrow> reply list \<Rightarrow> nodes \<Rightarrow> bool"
  for cat attr up short where
  stop: "tree_run cat attr up short nd [] [] nd"
| step: "tree_step cat attr up short nd q r nd1 \<Longrightarrow> tree_run cat attr up short nd1 qs rs nd2 \<Longrightarrow>
    tree_run cat attr up short nd (q # qs) (r # rs) nd2"

section \<open>Servers\<close>

text \<open>
  The documented behaviour of the server: a text query that succeeds returns the listing that the
  catalogue describes, one name on a line; with \<open>up\<close> text queries succeed.
\<close>

definition answers ::
  "bool \<Rightarrow> 'w env \<Rightarrow> 'client http_driver \<Rightarrow> string \<Rightarrow> (string \<Rightarrow> string list) \<Rightarrow> string list \<Rightarrow> bool" where
  "answers up e d sql parse names \<longleftrightarrow>
     (\<forall>w. case fst (env_send e (text_request d sql) w) of
            Inl _ \<Rightarrow> \<not> up
          | Inr resp \<Rightarrow> (case rs_text resp of
                Inl _ \<Rightarrow> \<not> up
              | Inr body \<Rightarrow> if rs_success resp then parse body = names else \<not> up))"

definition serves :: "bool \<Rightarrow> 'w env \<Rightarrow> 'client http_driver \<Rightarrow> catalog \<Rightarrow> bool" where
  "serves up e d cat \<longleftrightarrow>
     answers up e d sql_list_databases nonempty_lines (databases cat)
   \<and> (\<forall>b. valid_db_or_table b \<longrightarrow> answers up e d (sql_list_tables b) nonempty_lines (tables_of cat b))
   \<and> (\<forall>b t. valid_db_or_table b \<and> valid_db_or_table t \<longrightarrow>
         answers up e d (sql_list_partitions b t) partition_lines (partitions_of cat b t))"

end
