(* ===== verification/TreeRefine.thy ===== *)
theory TreeRefine
  imports TreeSpec
begin

text \<open>
  The handlers of \<open>ClickFs\<close> implement the tree of \<open>TreeSpec\<close>: a simulation, step by step, between the
  inode table and the abstract bindings.  The relation says that every known path is written in the
  normal way, that every cached listing is the catalogue's, and that the server is the one described.
\<close>

section \<open>Simulations\<close>

fun machine_run :: "('q \<Rightarrow> 's \<Rightarrow> ('r \<times> 's) option) \<Rightarrow> 'q list \<Rightarrow> 's \<Rightarrow> ('r list \<times> 's) option" where
  "machine_run f [] s = Some ([], s)"
| "machine_run f (q # qs) s =
     (case f q s of
        None \<Rightarrow> None
      | Some (r, s1) \<Rightarrow> map_option (apfst (Cons r)) (machine_run f qs s1))"

locale simulation =
  fixes machine :: "'q \<Rightarrow> 's \<Rightarrow> ('r \<times> 's) option"
    and spec :: "'a \<Rightarrow> 'q \<Rightarrow> 'r \<Rightarrow> 'a \<Rightarrow> bool"
    and spec_run :: "'a \<Rightarrow> 'q list \<Rightarrow> 'r list \<Rightarrow> 'a \<Rightarrow> bool"
    and related :: "'a \<Rightarrow> 's \<Rightarrow> bool"
    and allowed :: "'q \<Rightarrow> bool"
  assumes run_stop: "spec_run a [] [] a"
    and run_step: "spec a q r a1 \<Longrightarrow> spec_run a1 qs rs a2 \<Longrightarrow> spec_run a (q # qs) (r # rs) a2"
    and simulates: "related a s \<Longrightarrow> allowed q \<Longrightarrow> machine q s = Some (r, s1) \<Longrightarrow>
          \<exists>a1. spec a q r a1 \<and> related a1 s1"
begin

lemma run_simulates:
  assumes "machine_run machine qs s = Some (rs, s')" and "related a s" and "list_all allowed qs"
  shows "\<exists>a'. spec_run a qs rs a' \<and> related a' s'"
  using assms
proof (induction qs arbitrary: a s rs)
  case (Cons q qs)
  obtain r s1 where q: "machine q s = Some (r, s1)"
    using Cons.prems(1) by (auto split: option.splits)
  then obtain rs1 where rest: "machine_run machine qs s1 = Some (rs1, s')" and rs: "rs = r # rs1"
    using Cons.prems(1) by auto
  obtain a1 where a1: "spec a q r a1" "related a1 s1"
    using simulates [OF Cons.prems(2) _ q] Cons.prems(3) by auto
  then obtain a' where "spec_run a1 qs rs1 a'" and "related a' s'"
    using Cons.IH [OF rest] Cons.prems(3) by auto
  with a1(1) rs run_step show ?case by blast
qed (use run_stop in auto)

end

section \<open>Paths and names\<close>

definition clean_path :: "string \<Rightarrow> bool" where
  "clean_path p \<longleftrightarrow>
     components p = RootDir # map Normal (path_comps p) \<and> list_all utf8_valid (path_comps p)"

lemma clean_pathI:
  assumes "components p = RootDir # map Normal ns" and "list_all utf8_valid ns"
  shows "path_comps p = ns \<and> clean_path p"
proof -
  have "List.map_filter (\<lambda>c. case c of Normal s \<Rightarrow> to_str s | _ \<Rightarrow> None) (map Normal ns) = ns"
    using assms(2) by (induction ns) (simp_all add: to_str_def)
  then have "path_comps p = ns" by (simp add: path_comps_def assms(1))
  with assms show ?thesis by (simp add: clean_path_def)
qed

lemma clean_root: "clean_path ''/''" "path_comps ''/'' = []"
  using clean_pathI [of "''/''" "[]"] by simp_all

lemma clean_resolve: "clean_path p \<Longrightarrow> resolve p = resolve_comps (path_comps p)"
  by (auto simp: resolve_def clean_path_def)

lemma clean_join:
  assumes "clean_path p" and "entry_name n"
  shows "path_comps (path_join p n) = path_comps p @ [n] \<and> clean_path (path_join p n)"
proof -
  have "p \<noteq> []"
    using assms(1) by (auto simp: clean_path_def components_def)
  with assms show ?thesis
    by (intro clean_pathI) (simp_all add: components_join_plain clean_path_def entry_name_def)
qed

lemma clean_eq: "clean_path p \<Longrightarrow> clean_path q \<Longrightarrow> path_eq p q \<longleftrightarrow> path_comps p = path_comps q"
  by (auto simp: path_eq_def clean_path_def path_comps_def)

section \<open>Inodes and bindings\<close>

definition table_names :: "inode_table \<Rightarrow> nodes" where
  "table_names t i = map_option path_comps (inode_lookup t i)"

definition table_clean :: "inode_table \<Rightarrow> bool" where
  "table_clean t \<longleftrightarrow> inode_wf t \<and> (\<forall>i p. inode_lookup t i = Some p \<longrightarrow> clean_path p)"

lemma table_clean_new: "table_clean inode_new"
  by (auto simp: table_clean_def inode_new_wf clean_root)
    (auto simp: inode_new_def inode_lookup_def clean_root split: if_splits)

lemma table_names_new: "table_names inode_new = tree_root"
  by (auto simp: table_names_def inode_new_def inode_lookup_def tree_root_def clean_root)

lemma allocate_binds:
  assumes t: "table_clean t" and p: "clean_path p" and a: "inode_allocate h p t = Some (i, t')"
  shows "binds (table_names t) (path_comps p) i (table_names t') \<and> table_clean t'"
proof -
  have wf: "inode_wf t" using t by (simp add: table_clean_def)
  have known: "j = k \<longleftrightarrow> path_comps p = path_comps q"
    if "inode_lookup t' j = Some q" "inode_lookup t' k = Some q'" "path_eq q' p" "clean_path q" for j k q q'
    using inode_lookup_inj [OF inode_allocate_wf [OF wf a] that(1,2)] that(3) clean_eq [OF that(4) p]
    by (auto simp: path_eq_def)
  obtain q where q: "inode_lookup t' i = Some q" "path_eq q p"
    using inode_allocate_lookup [OF wf a] by blast
  have fwd: "t' = t \<or> (inode_lookup t i = None \<and> forward t' = fmupd i p (forward t))"
    using inode_allocate_cases [OF wf a] by (auto simp: probe_post_def inode_lookup_def)
  then have clean: "table_clean t'"
    using t p inode_allocate_wf [OF wf a] by (auto simp: table_clean_def inode_lookup_def split: if_splits)
  have q_names: "path_comps q = path_comps p"
    using q clean clean_eq [OF _ p] by (auto simp: table_clean_def)
  have "table_names t' = (table_names t)(i \<mapsto> path_comps p)"
    using fwd q(1) q_names by (auto simp: table_names_def inode_lookup_def fun_eq_iff)
  moreover have "table_names t i = None \<or> table_names t i = Some (path_comps p)"
    using fwd q(1) q_names by (auto simp: table_names_def)
  moreover have "j = i" if "table_names t j = Some (path_comps p)" for j
  proof -
    obtain q' where q': "inode_lookup t j = Some q'" "path_comps q' = path_comps p"
      using \<open>table_names t j = _\<close> by (auto simp: table_names_def)
    have "clean_path q'" using t q'(1) by (auto simp: table_clean_def)
    then show ?thesis
      using known [OF inode_allocate_frame [OF wf a q'(1)] q] q'(2) by simp
  qed
  ultimately show ?thesis using clean by (simp add: binds_def)
qed

lemma emit_page:
  assumes "emit_entries h full dir path k es acc t = Some (out, t')" and "table_clean t"
    and "clean_path path" and "list_all (\<lambda>(_, n). n = ''.'' \<or> n = ''..'' \<or> entry_name n) es"
  shows "\<exists>new. out = acc @ new \<and> table_clean t'
    \<and> page (\<exists>a d. full a d) dir (path_comps path) k es (table_names t) new (table_names t')"
  using assms
proof (induction es arbitrary: k acc t)
  case (Cons e es)
  obtain kd n where e: "e = (kd, n)" by fastforce
  from Cons.prems(1) obtain c t1 where
    c: "(if n = ''.'' \<or> n = ''..'' then Some (dir, t) else inode_allocate h (path_join path n) t)
        = Some (c, t1)"
    by (auto simp: e split: option.splits)
  have b: "entry_binds dir (path_comps path) n (table_names t) c (table_names t1) \<and> table_clean t1"
  proof (cases "n = ''.'' \<or> n = ''..''")
    case False
    then have "entry_name n" using Cons.prems(4) e by simp
    with False c allocate_binds [OF Cons.prems(2), of "path_join path n" h c t1]
      clean_join [OF Cons.prems(3)] show ?thesis by (auto simp: entry_binds_def)
  qed (use c Cons.prems(2) in \<open>auto simp: entry_binds_def\<close>)
  let ?d = "\<lparr>de_ino = c, de_offset = word_of_nat (k + 1), de_kind = kd, de_name = n\<rparr>"
  show ?case
  proof (cases "full acc ?d")
    case True
    with Cons.prems(1) c e have "out = acc" and "t' = t1" by (auto simp: Let_def)
    with True b e show ?thesis by (auto intro!: page.full)
  next
    case False
    then have "emit_entries h full dir path (k + 1) es (acc @ [?d]) t1 = Some (out, t')"
      using Cons.prems(1) c by (simp add: e Let_def)
    from Cons.IH [OF this] b Cons.prems(3,4) obtain new where
      "out = (acc @ [?d]) @ new" "table_clean t'"
      "page (\<exists>a d. full a d) dir (path_comps path) (k + 1) es (table_names t1) new (table_names t')"
      by auto
    with b e page.more show ?thesis by fastforce
  qed
qed (auto intro: page.intros)

section \<open>Cached listings\<close>

definition cache_coherent :: "('k, 'v) ttl_cache \<Rightarrow> ('k \<Rightarrow> 'v) \<Rightarrow> bool" where
  "cache_coherent c f \<longleftrightarrow> (\<forall>k v t. fmlookup (cmap c) k = Some (v, t) \<longrightarrow> v = f k)"

definition coherent :: "catalog \<Rightarrow> 'client clickfs \<Rightarrow> bool" where
  "coherent cat fs \<longleftrightarrow>
     cache_coherent (db_cache fs) (\<lambda>_. databases cat)
   \<and> cache_coherent (table_cache fs) (tables_of cat)
   \<and> cache_coherent (part_cache fs) (\<lambda>(d, t). partitions_of cat d t)"

lemma coherent_get:
  assumes "cache_coherent c f" and "cache_get c k t = (r, c')"
  shows "cache_coherent c' f \<and> (r = None \<or> r = Some (f k))"
  using assms
  by (auto simp: cache_coherent_def cache_get_def split: option.splits if_splits)

lemma coherent_insert: "cache_coherent c f \<Longrightarrow> cache_coherent (cache_insert c k (f k) t) f"
  by (auto simp: cache_coherent_def cache_insert_def)

lemma coherent_new: "coherent cat (clickfs_new d cfg u g t0)"
  by (simp add: coherent_def cache_coherent_def clickfs_new_def cache_new_def)

text \<open>The reply of a listing: the catalogue's, or an error of a server that is not \<open>up\<close>.\<close>

definition listing_reply :: "bool \<Rightarrow> string list \<Rightarrow> clickfs_error + string list \<Rightarrow> bool" where
  "listing_reply up names r \<longleftrightarrow> r = Ok names \<or> (\<not> up \<and> (\<exists>qe. r = Err (Query qe)))"

lemma answers_query_text:
  assumes "answers up e d sql parse names" and "query_text e d sql w = (r, w')"
  shows "(case r of Inl _ \<Rightarrow> \<not> up | Inr body \<Rightarrow> parse body = names)"
proof -
  obtain r0 w0 where send: "env_send e (text_request d sql) w = (r0, w0)" by fastforce
  note ans = assms(1) [unfolded answers_def, THEN spec, of w, unfolded send fst_conv]
  show ?thesis
  proof (cases r0)
    case (Inl err)
    with assms(2) send ans show ?thesis by (auto simp: query_text_def)
  next
    case (Inr resp)
    with assms(2) send ans show ?thesis
      by (cases "rs_text resp") (auto simp: query_text_def split: if_splits)
  qed
qed

lemma fetch_cached_coherent:
  assumes lens: "cache_lens sel upd" and coh: "cache_coherent (sel fs) f"
    and ans: "answers up e (f_driver fs) sql parse (f k)"
    and f: "fetch_cached sel upd parse e k sql fs w = (r, fs', w')"
  shows "listing_reply up (f k) r \<and> (\<exists>c. fs' = upd c fs \<and> cache_coherent c f)"
proof -
  obtain t w1 where now: "env_now e w = (t, w1)" by fastforce
  obtain o1 c1 where g: "cache_get (sel fs) k t = (o1, c1)" by fastforce
  note c1 = coherent_get [OF coh g]
  obtain q w2 where q: "query_text e (f_driver fs) sql w1 = (q, w2)" by fastforce
  obtain t2 w3 where now2: "env_now e w2 = (t2, w3)" by fastforce
  have sel: "sel (upd c1 fs) = c1" "\<And>c. upd c (upd c1 fs) = upd c fs"
    using lens by (simp_all add: cache_lens_def)
  show ?thesis
  proof (cases o1)
    case (Some v)
    with f now g c1 show ?thesis by (auto simp: fetch_cached_def listing_reply_def)
  next
    case None
    have g0: "cache_get (sel fs) k t = (None, c1)" using g None by simp
    note eval = f [unfolded fetch_cached_def now g0 Let_def prod.case option.case q]
    show ?thesis
    proof (cases q)
      case (Inl err)
      with eval q answers_query_text [OF ans q] c1 show ?thesis
        by (auto simp: listing_reply_def)
    next
      case (Inr body)
      with eval q answers_query_text [OF ans q] now2 c1 coherent_insert [of c1 f k t2] show ?thesis
        by (auto simp: listing_reply_def sel)
    qed
  qed
qed

lemma fetch_coherent:
  assumes "serves up e (f_driver fs) cat" and "coherent cat fs"
  shows "fetch_databases e fs w = (r, fs', w') \<Longrightarrow>
      listing_reply up (databases cat) r \<and> coherent cat fs'"
    and "valid_db_or_table d \<Longrightarrow> fetch_tables e d fs w = (r, fs', w') \<Longrightarrow>
      listing_reply up (tables_of cat d) r \<and> coherent cat fs'"
    and "valid_db_or_table d \<Longrightarrow> valid_db_or_table t \<Longrightarrow> fetch_partitions e d t fs w = (r, fs', w') \<Longrightarrow>
      listing_reply up (partitions_of cat d t) r \<and> coherent cat fs'"
proof -
  show "listing_reply up (databases cat) r \<and> coherent cat fs'"
    if "fetch_databases e fs w = (r, fs', w')"
    using fetch_cached_coherent [OF cache_lenses(1), of fs "\<lambda>_. databases cat" up e sql_list_databases
        nonempty_lines "()" w r fs' w'] that assms
    by (auto simp: serves_def coherent_def fetch_databases_def)
  show "listing_reply up (tables_of cat d) r \<and> coherent cat fs'"
    if "valid_db_or_table d" "fetch_tables e d fs w = (r, fs', w')"
    using fetch_cached_coherent [OF cache_lenses(2), of fs "tables_of cat" up e "sql_list_tables d"
        nonempty_lines d w r fs' w'] that assms
    by (auto simp: serves_def coherent_def fetch_tables_def)
  show "listing_reply up (partitions_of cat d t) r \<and> coherent cat fs'"
    if "valid_db_or_table d" "valid_db_or_table t" "fetch_partitions e d t fs w = (r, fs', w')"
    using fetch_cached_coherent [OF cache_lenses(3), of fs "\<lambda>(d, t). partitions_of cat d t" up e
        "sql_list_partitions d t" partition_lines "(d, t)" w r fs' w'] that assms
    by (auto simp: serves_def coherent_def fetch_partitions_def)
qed

lemma check_listed_reply:
  assumes "check_listed n (r0, fs', w') = (r, fs1, w1)" and "listing_reply up names r0"
  shows "fs1 = fs' \<and> w1 = w' \<and> (r = (if n \<in> set names then Ok () else Err NotFound)
    \<or> (\<not> up \<and> (\<exists>qe. r = Err (Query qe))))"
  using assms by (auto simp: check_listed_def listing_reply_def)

text \<open>Whether a plan's object exists, and the entries of a directory.\<close>

lemma verify_coherent:
  assumes s: "serves up e (f_driver fs) cat" and c: "coherent cat fs" and p: "plan_wf p"
    and v: "verify_plan_exists e p fs w = (r, fs', w')"
  shows "coherent cat fs' \<and> (r = (if in_catalog cat p then Ok () else Err NotFound)
    \<or> (\<not> up \<and> needs_listing p \<and> (\<exists>qe. r = Err (Query qe))))"
proof -
  obtain r1 fs1 w1 where dbs: "fetch_databases e fs w = (r1, fs1, w1)" using prod_cases3 by blast
  obtain r2 fs2 w2 where tbs: "fetch_tables e (the (p_db p)) fs w = (r2, fs2, w2)"
    using prod_cases3 by blast
  obtain r3 fs3 w3 where ps: "fetch_partitions e (the (p_db p)) (the (p_table p)) fs w = (r3, fs3, w3)"
    using prod_cases3 by blast
  note f = fetch_coherent(1) [OF s c dbs] fetch_coherent(2) [OF s c _ tbs] fetch_coherent(3) [OF s c _ _ ps]
  note defs = in_catalog_def needs_listing_def Let_def
  show ?thesis
  proof (cases "p_kind p")
    case ListTables
    with p v dbs f(1) check_listed_reply [of _ r1 fs1 w1] show ?thesis
      by (fastforce simp: verify_plan_exists_def plan_wf_def defs)
  next
    case (StreamPartition x)
    with p v ps f(3) check_listed_reply [of _ r3 fs3 w3] show ?thesis
      by (fastforce simp: verify_plan_exists_def plan_wf_def defs)
  qed (use p v tbs f(2) c check_listed_reply [of _ r2 fs2 w2] in
      \<open>fastforce simp: verify_plan_exists_def plan_wf_def defs\<close>)+
qed

lemma dir_entries_coherent:
  assumes s: "serves up e (f_driver fs) cat" and c: "coherent cat fs" and p: "plan_wf p"
    and v: "dir_entries e p fs w = (r, fs', w')"
  shows "coherent cat fs' \<and>
    (case tree_children cat p of
       None \<Rightarrow> r = Err NotADir
     | Some es \<Rightarrow> r = Ok (dots @ es)
         \<or> (\<not> up \<and> p_kind p = ListPartitions \<and> r = Ok (dots @ table_entries))
         \<or> (\<not> up \<and> (p_kind p = DbNamespace \<or> p_kind p = ListTables) \<and> (\<exists>qe. r = Err (Query qe))))"
proof -
  obtain r1 fs1 w1 where dbs: "fetch_databases e fs w = (r1, fs1, w1)" using prod_cases3 by blast
  obtain r2 fs2 w2 where tbs: "fetch_tables e (the (p_db p)) fs w = (r2, fs2, w2)"
    using prod_cases3 by blast
  obtain r3 fs3 w3 where ps: "fetch_partitions e (the (p_db p)) (the (p_table p)) fs w = (r3, fs3, w3)"
    using prod_cases3 by blast
  note f = fetch_coherent(1) [OF s c dbs] fetch_coherent(2) [OF s c _ tbs] fetch_coherent(3) [OF s c _ _ ps]
  note defs = dir_entries_def tree_children_def list_dirs_def listing_reply_def part_entries_def Let_def
  show ?thesis
  proof (cases "p_kind p")
    case DbNamespace
    with v dbs f(1) show ?thesis by (auto simp: defs)
  next
    case ListTables
    with p v tbs f(2) show ?thesis by (auto simp: defs plan_wf_def)
  next
    case ListPartitions
    with p v ps f(3) show ?thesis by (auto simp: defs plan_wf_def)
  qed (use v c in \<open>auto simp: defs\<close>)
qed

section \<open>The simulation\<close>

text \<open>The kernel looks up single names; \<open>attr\<close> only depends on the owner and the start time.\<close>

fun kernel_request :: "request \<Rightarrow> bool" where
  "kernel_request (ReqLookup parent n) = plain_name n"
| "kernel_request _ = True"

definition tree_rel ::
  "bool \<Rightarrow> 'w env \<Rightarrow> 'client http_driver \<Rightarrow> catalog \<Rightarrow> (u64 \<Rightarrow> query_plan \<Rightarrow> file_attr) \<Rightarrow>
   nodes \<Rightarrow> 'client clickfs \<Rightarrow> bool" where
  "tree_rel up e d cat attr nd fs \<longleftrightarrow>
     serves up e d cat \<and> catalog_ok cat \<and> f_driver fs = d \<and> table_clean (inodes fs) \<and> coherent cat fs
   \<and> attr_for_plan fs = attr \<and> nd = table_names (inodes fs)"

lemma attr_cong:
  "uid fs' = uid fs \<Longrightarrow> gid fs' = gid fs \<Longrightarrow> start_time fs' = start_time fs \<Longrightarrow>
   attr_for_plan fs' = attr_for_plan fs"
  by (simp add: fun_eq_iff attr_for_plan_def dir_attr_def file_attr_of_def)

text \<open>A handler that leaves the inodes and the caches alone keeps the relation.\<close>

lemma tree_rel_frame:
  assumes "tree_rel up e d cat attr nd fs" and "f_driver fs' = f_driver fs" and "inodes fs' = inodes fs"
    and "db_cache fs' = db_cache fs" and "table_cache fs' = table_cache fs" and "part_cache fs' = part_cache fs"
    and "uid fs' = uid fs" and "gid fs' = gid fs" and "start_time fs' = start_time fs"
  shows "tree_rel up e d cat attr nd fs'"
  using assms attr_cong [of fs' fs] by (simp add: tree_rel_def coherent_def)

lemma tree_rel_alloc:
  assumes "tree_rel up e d cat attr nd fs" and "same_but_caches fs fs1" and "coherent cat fs1"
    and "table_clean t"
  shows "tree_rel up e d cat attr (table_names t) (fs1\<lparr>inodes := t\<rparr>)"
  using assms attr_cong [of "fs1\<lparr>inodes := t\<rparr>" fs]
  by (simp add: tree_rel_def coherent_def same_but_caches_def)

lemma tree_rel_caches:
  assumes "tree_rel up e d cat attr nd fs" and "same_but_caches fs fs1" and "coherent cat fs1"
  shows "tree_rel up e d cat attr nd fs1"
  using assms attr_cong [of fs1 fs] by (simp add: tree_rel_def same_but_caches_def)

lemma tree_rel_path:
  assumes "tree_rel up e d cat attr nd fs"
  shows "path_of fs i = (case inode_lookup (inodes fs) i of None \<Rightarrow> Err NotFound | Some p \<Rightarrow> Ok p)"
    and "inode_lookup (inodes fs) i = None \<Longrightarrow> nd i = None"
    and "inode_lookup (inodes fs) i = Some p \<Longrightarrow>
      nd i = Some (path_comps p) \<and> clean_path p \<and> resolve p = resolve_comps (path_comps p)"
  using assms clean_resolve
  by (auto simp: path_of_def tree_rel_def table_names_def table_clean_def split: option.splits)

lemma sim_lookup:
  assumes R: "tree_rel up (x_env x) d cat attr nd fs" and n: "plain_name n"
    and h: "fs_lookup x parent n fs w = Some (r, fs', w')"
  shows "\<exists>nd'. tree_step cat attr up short nd (ReqLookup parent n) (entry_reply r) nd'
    \<and> tree_rel up (x_env x) d cat attr nd' fs'"
proof (cases "inode_lookup (inodes fs) parent")
  case None
  with h R tree_rel_path(1) [OF R, of parent] tree_rel_path(2) [OF R None] show ?thesis
    by (auto simp: fs_lookup_def intro!: exI tree_step.lookup_stale)
next
  case (Some pp)
  note path = tree_rel_path(1) [OF R, of parent, unfolded Some option.case]
    and nd = tree_rel_path(3) [OF R Some]
  note lk = fs_lookup_def to_str_def Let_def
  show ?thesis
  proof (cases "utf8_valid n")
    case False
    with h path R show ?thesis by (auto simp: lk intro!: exI tree_step.lookup_text)
  next
    case True

    have join: "clean_path (path_join pp n)" "path_comps (path_join pp n) = path_comps pp @ [n]"
      using clean_join [of pp n] nd n True by (simp_all add: entry_name_def)
    note res = clean_resolve [OF join(1), unfolded join(2)]
    show ?thesis
    proof (cases "resolve_comps (path_comps pp @ [n])")
      case (Inl err)
      with h path R res True nd show ?thesis by (auto simp: lk intro!: exI tree_step.lookup_name)
    next
      case (Inr p)
      obtain v fs1 w1 where v: "verify_plan_exists (x_env x) p fs w = (v, fs1, w1)"
        using prod_cases3 by blast
      have "coherent cat fs1 \<and> (v = (if in_catalog cat p then Ok () else Err NotFound)
          \<or> (\<not> up \<and> needs_listing p \<and> (\<exists>qe. v = Err (Query qe))))"
        using verify_coherent [OF _ _ _ v, of up cat] R resolve_wf [of "path_join pp n" p] res Inr
        by (simp add: tree_rel_def)
      then consider (fail) qe where "v = Err (Query qe)" "\<not> up" "needs_listing p"
        | (absent) "v = Err NotFound" "\<not> in_catalog cat p" | (found) "v = Ok ()" "in_catalog cat p"
        by (auto split: if_splits)
      note v_cases = this
      have fs1: "same_but_caches fs fs1" "coherent cat fs1"
        using verify_same [OF v] \<open>coherent cat fs1 \<and> _\<close> by simp_all
      note R1 = tree_rel_caches [OF R fs1]
      have eval: "(case v of
            Inl err \<Rightarrow> Some (Err (to_errno err), fs1, w1)
          | Inr _ \<Rightarrow>
             (case inode_allocate (x_hash x) (path_join pp n) (inodes fs1) of
                None \<Rightarrow> None
              | Some (i, t) \<Rightarrow> Some (Ok (attr_for_plan fs1 i p), fs1\<lparr>inodes := t\<rparr>, w1))) = Some (r, fs', w')"
        using h path True res Inr v by (simp add: lk split: sum.splits)
      from v_cases show ?thesis
      proof cases
        case fail
        with eval R1 nd Inr tree_step.lookup_failed [of nd parent "path_comps pp" n p up cat attr short qe]
        show ?thesis by auto
      next
        case absent
        with eval R1 nd Inr tree_step.lookup_absent [of nd parent "path_comps pp" n p cat attr up short]
        show ?thesis by auto
      next
        case found
        with eval obtain i t where
          a: "inode_allocate (x_hash x) (path_join pp n) (inodes fs1) = Some (i, t)"
          and r: "r = Ok (attr_for_plan fs1 i p)" "fs' = fs1\<lparr>inodes := t\<rparr>"
          by (auto split: option.splits)
        have b: "binds nd (path_comps pp @ [n]) i (table_names t)" "table_clean t"
          using allocate_binds [OF _ join(1) a] R1 join(2) by (simp_all add: tree_rel_def)
        have "attr_for_plan fs1 = attr" using R1 by (simp add: tree_rel_def)
        with r b nd Inr found tree_step.lookup_found [of nd parent "path_comps pp" n p cat i "table_names t"]
          tree_rel_alloc [OF R fs1 b(2)] show ?thesis by auto
      qed
    qed
  qed
qed

lemma catalog_entries:
  assumes "catalog_ok cat" and "tree_children cat p = Some es"
  shows "list_all (\<lambda>(_, n). n = ''.'' \<or> n = ''..'' \<or> entry_name n) (drop k (dots @ es))"
    and "list_all (\<lambda>(_, n). n = ''.'' \<or> n = ''..'' \<or> entry_name n) (drop k (dots @ table_entries))"
proof -
  have fixed: "list_all (\<lambda>(_, n). entry_name n) table_entries" "entry_name ''db''"
    by (simp_all add: table_entries_def entry_name_def plain_name_def lit_utf8 del: utf8_valid.simps)
  have es: "list_all (\<lambda>(_, n). entry_name n) es"
    using assms fixed
    by (auto simp: tree_children_def Let_def catalog_ok_def part_entries_def list_all_iff
        split: plan_kind.splits)
  have "list_all (\<lambda>(_, n). n = ''.'' \<or> n = ''..'' \<or> entry_name n) (dots @ es')"
    if "list_all (\<lambda>(_, n). entry_name n) es'" for es'
    using that by (auto simp: dots_def list_all_iff)
  from this [OF es] this [OF fixed(1)]
  show "list_all (\<lambda>(_, n). n = ''.'' \<or> n = ''..'' \<or> entry_name n) (drop k (dots @ es))"
    and "list_all (\<lambda>(_, n). n = ''.'' \<or> n = ''..'' \<or> entry_name n) (drop k (dots @ table_entries))"
    by (auto simp: list_all_iff dest: in_set_dropD)
qed

lemma sim_readdir:
  assumes R: "tree_rel up (x_env x) d cat attr nd fs"
    and h: "fs_readdir x full i off fs w = Some (r, fs', w')"
  shows "\<exists>nd'. tree_step cat attr up (\<exists>a d. full a d) nd (ReqReaddir i off) (RepDir r) nd'
    \<and> tree_rel up (x_env x) d cat attr nd' fs'"
proof (cases "inode_lookup (inodes fs) i")
  case None
  with h R tree_rel_path(1) [OF R, of i] tree_rel_path(2) [OF R None] show ?thesis
    by (auto simp: fs_readdir_def intro!: exI tree_step.readdir_stale)
next
  case (Some pp)
  note path = tree_rel_path(1) [OF R, of i, unfolded Some option.case]
    and nd = tree_rel_path(3) [OF R Some]
  show ?thesis
  proof (cases "resolve_comps (path_comps pp)")
    case (Inl err)
    with h path R nd show ?thesis by (auto simp: fs_readdir_def intro!: exI tree_step.readdir_name)
  next
    case (Inr p)
    obtain v fs1 w1 where v: "dir_entries (x_env x) p fs w = (v, fs1, w1)"
      using prod_cases3 by blast
    note de = dir_entries_coherent [OF _ _ _ v, of up cat]
    have fs1: "same_but_caches fs fs1" "coherent cat fs1"
      using dir_entries_same [OF v] de R resolve_wf [of pp p] nd Inr by (simp_all add: tree_rel_def)
    note R1 = tree_rel_caches [OF R fs1]
    have eval: "(case v of
          Inl err \<Rightarrow> Some (Err (to_errno err), fs1, w1)
        | Inr es \<Rightarrow>
           (case emit_entries (x_hash x) full i pp (unat off) (drop (unat off) es) [] (inodes fs1) of
              None \<Rightarrow> None
            | Some (out, t) \<Rightarrow> Some (Ok out, fs1\<lparr>inodes := t\<rparr>, w1))) = Some (r, fs', w')"
      using h path nd Inr v by (simp add: fs_readdir_def split: sum.splits)
    have paged: "\<exists>out nd'. r = Ok out \<and> tree_rel up (x_env x) d cat attr nd' fs' \<and>
        page (\<exists>a d. full a d) i (path_comps pp) (unat off) (drop (unat off) es) nd out nd'"
      if "v = Ok es" "list_all (\<lambda>(_, n). n = ''.'' \<or> n = ''..'' \<or> entry_name n) (drop (unat off) es)" for es
    proof -
      from eval that(1) obtain out t where
        t: "emit_entries (x_hash x) full i pp (unat off) (drop (unat off) es) [] (inodes fs1) = Some (out, t)"
        and r: "r = Ok out" "fs' = fs1\<lparr>inodes := t\<rparr>"
        by (auto split: option.splits)
      have "page (\<exists>a d. full a d) i (path_comps pp) (unat off) (drop (unat off) es) nd out (table_names t)
          \<and> table_clean t"
        using emit_page [OF t _ _ that(2)] R1 nd by (auto simp: tree_rel_def)
      with r tree_rel_alloc [OF R fs1] show ?thesis by blast
    qed
    show ?thesis
    proof (cases "tree_children cat p")
      case None
      with de R resolve_wf [of pp p] nd Inr have "v = Err NotADir" by (simp add: tree_rel_def)
      with eval have "r = Err ENOTDIR" and "fs' = fs1" by simp_all
      moreover have "tree_step cat attr up (\<exists>a d. full a d) nd (ReqReaddir i off) (RepDir (Err ENOTDIR)) nd"
        using nd Inr None by (intro tree_step.readdir_file) simp_all
      ultimately show ?thesis using R1 by blast
    next
      case (Some es)
      then consider (ok) "v = Ok (dots @ es)"
        | (fixed) "v = Ok (dots @ table_entries)" "\<not> up" "p_kind p = ListPartitions"
        | (fail) qe where "v = Err (Query qe)" "\<not> up" "p_kind p = DbNamespace \<or> p_kind p = ListTables"
        using de R resolve_wf [of pp p] nd Inr by (auto simp: tree_rel_def)
      then show ?thesis
      proof cases
        case ok
        have "catalog_ok cat" using R by (simp add: tree_rel_def)
        from paged [OF ok catalog_entries(1) [OF this Some]] obtain out nd' where
          "r = Ok out" "tree_rel up (x_env x) d cat attr nd' fs'"
          "page (\<exists>a d. full a d) i (path_comps pp) (unat off) (drop (unat off) (dots @ es)) nd out nd'"
          by blast
        moreover from this(3) have
          "tree_step cat attr up (\<exists>a d. full a d) nd (ReqReaddir i off) (RepDir (Ok out)) nd'"
          using nd Inr Some by (intro tree_step.readdir_page) simp_all
        ultimately show ?thesis by blast
      next
        case fixed
        have "catalog_ok cat" using R by (simp add: tree_rel_def)
        from paged [OF fixed(1) catalog_entries(2) [OF this Some]] obtain out nd' where
          "r = Ok out" "tree_rel up (x_env x) d cat attr nd' fs'"
          "page (\<exists>a d. full a d) i (path_comps pp) (unat off) (drop (unat off) (dots @ table_entries)) nd out nd'"
          by blast
        moreover from this(3) have
          "tree_step cat attr up (\<exists>a d. full a d) nd (ReqReaddir i off) (RepDir (Ok out)) nd'"
          using nd Inr fixed(2,3) by (intro tree_step.readdir_fixed) simp_all
        ultimately show ?thesis by blast
      next
        case fail
        with eval have "r = Err (query_errno qe)" and "fs' = fs1" by simp_all
        moreover have "tree_step cat attr up (\<exists>a d. full a d) nd (ReqReaddir i off)
            (RepDir (Err (query_errno qe))) nd"
          using nd Inr fail(2,3) by (intro tree_step.readdir_failed) simp_all
        ultimately show ?thesis using R1 by blast
      qed
    qed
  qed
qed

lemma sim_getattr:
  assumes R: "tree_rel up e d cat attr nd fs"
  shows "tree_step cat attr up short nd (ReqGetattr i) (attr_reply (fs_getattr i fs)) nd"
proof (cases "i = INO_ROOT")
  case True
  have "inode_lookup (inodes fs) INO_ROOT = Some ''/''"
    using R by (simp add: tree_rel_def table_clean_def inode_wf_def inode_lookup_def)
  then have nd: "nd INO_ROOT = Some []"
    using R clean_root by (simp add: tree_rel_def table_names_def)
  have "dir_attr fs INO_ROOT = attr INO_ROOT (mk_plan Root None None)"
    using R by (auto simp: tree_rel_def attr_for_plan_def)
  with True tree_step.getattr_known [of nd INO_ROOT "[]" "mk_plan Root None None"] nd show ?thesis
    by (simp add: fs_getattr_def)
next
  case False
  show ?thesis
  proof (cases "inode_lookup (inodes fs) i")
    case None
    with False tree_rel_path(1) [OF R, of i] tree_rel_path(2) [OF R None] show ?thesis
      by (auto simp: fs_getattr_def intro: tree_step.getattr_stale)
  next
    case (Some pp)
    note path = tree_rel_path(1) [OF R, of i, unfolded Some option.case]
      and nd = tree_rel_path(3) [OF R Some]
    have "attr_for_plan fs = attr" using R by (simp add: tree_rel_def)
    with False path nd show ?thesis
      by (cases "resolve_comps (path_comps pp)")
        (auto simp: fs_getattr_def intro: tree_step.getattr_name tree_step.getattr_known)
  qed
qed

lemma open_handle_allowed:
  assumes "open_handle x p fs w = (q, w')"
  shows "open_allowed p (map_sum id (\<lambda>_. fh) q)"
  using assms
  by (auto simp: open_handle_def open_allowed_def Let_def dest!: apfst_eqD
      split: plan_kind.splits prod.splits sum.splits)

lemma sim_open:
  assumes R: "tree_rel up (x_env x) d cat attr nd fs" and h: "fs_open x i flags fs w = (r, fs', w')"
  shows "tree_step cat attr up short nd (ReqOpen i flags) (open_reply r) nd"
proof (cases "and flags O_ACCMODE = O_RDONLY")
  case False
  with h show ?thesis by (auto simp: fs_open_def intro: tree_step.open_write)
next
  case acc: True
  show ?thesis
  proof (cases "inode_lookup (inodes fs) i")
    case None
    with acc h tree_rel_path(1) [OF R, of i] tree_rel_path(2) [OF R None] show ?thesis
      by (auto simp: fs_open_def intro: tree_step.open_stale)
  next
    case (Some pp)
    note path = tree_rel_path(1) [OF R, of i, unfolded Some option.case]
      and nd = tree_rel_path(3) [OF R Some]
    show ?thesis
    proof (cases "resolve_comps (path_comps pp)")
      case (Inl err)
      with acc h path nd show ?thesis by (auto simp: fs_open_def intro: tree_step.open_name)
    next
      case (Inr p)
      obtain q w1 where q: "open_handle x p (fs\<lparr>fh_counter := fh_counter fs + 1\<rparr>) w = (q, w1)"
        by fastforce
      have "r = map_sum id (\<lambda>_. fh_counter fs) q"
        using acc h path nd Inr q by (cases q) (auto simp: fs_open_def Let_def)
      with open_handle_allowed [OF q] acc nd Inr show ?thesis
        by (auto intro: tree_step.open_plan)
    qed
  qed
qed

lemma open_frame:
  assumes "fs_open x i flags fs w = (r, fs', w')"
  shows "\<exists>c hs. fs' = fs\<lparr>fh_counter := c, handles := hs\<rparr>"
proof -
  consider "fs' = fs\<lparr>fh_counter := fh_counter fs, handles := handles fs\<rparr>"
    | "fs' = fs\<lparr>fh_counter := fh_counter fs + 1, handles := handles fs\<rparr>"
    | hs where "fs' = fs\<lparr>fh_counter := fh_counter fs + 1, handles := hs\<rparr>"
    using assms by (auto simp: fs_open_def Let_def split: sum.splits prod.splits if_splits)
  then show ?thesis by cases blast+
qed

lemma sim_step:
  assumes R: "tree_rel up (x_env x) d cat attr nd fs" and k: "kernel_request req"
    and h: "fs_handle x full req fs w = Some (r, fs', w')"
  shows "\<exists>nd'. tree_step cat attr up (\<exists>a d. full a d) nd req r nd' \<and> tree_rel up (x_env x) d cat attr nd' fs'"
proof (cases req)
  case (ReqLookup parent n)
  with h k sim_lookup [OF R] show ?thesis by auto
next
  case (ReqReaddir i off)
  with h sim_readdir [OF R] show ?thesis by auto
next
  case (ReqGetattr i)
  with h R sim_getattr [OF R] show ?thesis by auto
next
  case (ReqOpen i flags)
  then obtain q where q: "fs_open x i flags fs w = (q, fs', w')" "r = open_reply q"
    using h by (cases "fs_open x i flags fs w") auto
  have "tree_rel up (x_env x) d cat attr nd fs'"
    using open_frame [OF q(1)] by (auto intro: tree_rel_frame [OF R])
  with ReqOpen q sim_open [OF R q(1)] show ?thesis by auto
next
  case (ReqRead fh off sz)
  then obtain q where q: "fs_read (x_env x) fh off sz fs w = (q, fs', w')" "r = RepData q"
    using h by (cases "fs_read (x_env x) fh off sz fs w") auto
  consider "fs' = fs" | hs where "fs' = fs\<lparr>handles := hs\<rparr>"
    using q(1) by (auto simp: fs_read_def split: option.splits file_handle.splits prod.splits)
  then have "tree_rel up (x_env x) d cat attr nd fs'" by cases (auto intro: tree_rel_frame [OF R] R)
  with ReqRead q tree_step.read_any show ?thesis by blast
next
  case (ReqRelease fh)
  with h have "\<exists>hs. fs' = fs\<lparr>handles := hs\<rparr>" and "r = RepEmpty (Ok ())" by (auto simp: fs_release_def)
  then show ?thesis
    using ReqRelease tree_step.release_any by (auto intro!: exI tree_rel_frame [OF R])
next
  case ReqStatfs
  with h have "fs' = fs" and "r = RepStatfs (fs_statfs fs)" by auto
  with ReqStatfs R tree_step.statfs_any show ?thesis by blast
next
  case (ReqMutate m)
  with h have "fs' = fs" and "r = RepEmpty (Err EROFS)" by (simp_all add: erofs_stub_def)
  with ReqMutate R tree_step.mutate_refused show ?thesis by blast
qed

lemma fs_run_machine:
  "fs_run x full reqs fs w = machine_run (\<lambda>q (fs, w). fs_handle x full q fs w) reqs (fs, w)"
  by (induction reqs arbitrary: fs w) (auto split: option.splits)

interpretation tree: simulation
  "\<lambda>q (fs, w). fs_handle x full q fs w" "tree_step cat attr up (\<exists>a d. full a d)"
  "tree_run cat attr up (\<exists>a d. full a d)" "\<lambda>nd (fs, w). tree_rel up (x_env x) d cat attr nd fs"
  kernel_request
  for x :: "('w, 'j) ext" and full cat attr up and d :: "'client http_driver"
proof unfold_locales
  fix nd req r and s s1 :: "'client clickfs \<times> 'w"
  assume "case s of (fs, w) \<Rightarrow> tree_rel up (x_env x) d cat attr nd fs" and "kernel_request req"
    and "(case s of (fs, w) \<Rightarrow> fs_handle x full req fs w) = Some (r, s1)"
  then show "\<exists>nd1. tree_step cat attr up (\<exists>a d. full a d) nd req r nd1
      \<and> (case s1 of (fs, w) \<Rightarrow> tree_rel up (x_env x) d cat attr nd1 fs)"
    using sim_step by (cases s; cases s1) fastforce
qed (auto intro: tree_run.intros)

lemma new_rel:
  assumes "serves up e d cat" and "catalog_ok cat"
  shows "tree_rel up e d cat (attr_for_plan (clickfs_new d cfg u g t0)) tree_root (clickfs_new d cfg u g t0)"
  using assms coherent_new table_clean_new table_names_new
  by (simp add: tree_rel_def) (simp add: clickfs_new_def)

lemma run_rel:
  assumes "serves up (x_env x) d cat" and "catalog_ok cat" and "list_all kernel_request reqs"
    and run: "fs_run x full reqs (clickfs_new d cfg u g t0) w = Some (replies, fs', w')"
  shows "\<exists>nd'. tree_run cat (attr_for_plan (clickfs_new d cfg u g t0)) up (\<exists>a d. full a d)
      tree_root reqs replies nd'
    \<and> tree_rel up (x_env x) d cat (attr_for_plan (clickfs_new d cfg u g t0)) nd' fs'"
proof -
  have "machine_run (\<lambda>q (fs, w). fs_handle x full q fs w) reqs (clickfs_new d cfg u g t0, w)
      = Some (replies, fs', w')"
    using run by (simp add: fs_run_machine)
  from tree.run_simulates [OF this _ assms(3)] new_rel [OF assms(1,2)] show ?thesis by fastforce
qed

end
