(* ===== verification/TreeProps.thy ===== *)
theory TreeProps
  imports TreeRefine
begin

text \<open>
  What the refinement gives: in every session the known names that denote something denote an object
  of the catalogue below a listed database and a listed table, and looking up a name in a directory
  succeeds exactly when the directory lists it and the resolver admits it, under the same number and
  with the same kind.
\<close>

section \<open>The tree\<close>

inductive_cases lookup_stepE: "tree_step cat attr up short nd (ReqLookup parent n) rep nd'"
inductive_cases readdir_stepE: "tree_step cat attr up short nd (ReqReaddir i off) rep nd'"
inductive_cases run_consE: "tree_run cat attr up short nd (q # qs) rs nd'"
inductive_simps run_nil_simp: "tree_run cat attr up short nd [] rs nd'"

text \<open>No catalogue lists the pseudo-partition \<open>all\<close>: the listing of partitions drops it.\<close>

definition no_all :: "catalog \<Rightarrow> bool" where
  "no_all cat \<longleftrightarrow> (\<forall>d t. valid_db_or_table d \<and> valid_db_or_table t \<longrightarrow> ''all'' \<notin> set (partitions_of cat d t))"

lemma serves_no_all:
  assumes "serves True e d cat"
  shows "no_all cat"
proof -
  have "''all'' \<notin> set names" if "answers True e d sql partition_lines names" for sql names
  proof -
    obtain r w' where q: "query_text e d sql undefined = (r, w')" by fastforce
    note ans = answers_query_text [OF that q]
    then obtain body where "partition_lines body = names" by (auto split: sum.splits)
    then show ?thesis by (auto simp: partition_lines_def)
  qed
  with assms show ?thesis unfolding serves_def no_all_def by blast
qed

definition kind_of :: "query_plan \<Rightarrow> file_type" where
  "kind_of p = (if is_dir p then Directory else RegularFile)"

lemma snd_Pair_image: "snd ` Pair k ` A = A"
  by force

lemma resolve_leaf_cases:
  assumes "resolve_leaf d t leaf = Ok q"
  obtains (fixed) k where "leaf \<in> {''.schema'', ''README.md'', ''all.tsv''}" and "q = mk_plan k (Some d) (Some t)"
      and "k \<in> {DescribeTable, Readme, StreamAll}"
  | (part) s where "leaf = s @ ''.tsv''" and "s \<noteq> ''all''" and "q = mk_plan (StreamPartition s) (Some d) (Some t)"
proof (cases "leaf \<in> {''.schema'', ''README.md'', ''all.tsv''}")
  case True
  with assms fixed show thesis by (auto simp: resolve_leaf_def)
next
  case False
  with assms have suf: "suffix ''.tsv'' leaf" by (auto simp: resolve_leaf_def split: if_splits)
  obtain s where leaf: "leaf = s @ ''.tsv''" using suffix_tsv_split [OF suf] by metis
  with False have "s \<noteq> ''all''" by auto
  with assms leaf part show thesis by (auto simp: resolve_leaf_partition split: if_splits)
qed

lemma tree_listing_agrees:
  assumes p: "resolve_comps ns = Ok p" and es: "tree_children cat p = Some es" and c: "in_catalog cat p"
    and all: "no_all cat" and q: "resolve_comps (ns @ [n]) = Ok q"
  shows "in_catalog cat q \<longleftrightarrow> n \<in> snd ` set es" and "(k, n) \<in> set es \<Longrightarrow> k = kind_of q"
proof -
  have wf: "plan_wf p" and ns: "ns = plan_names p" using resolve_comps_wf [OF p] by simp_all
  have "(in_catalog cat q \<longleftrightarrow> n \<in> snd ` set es) \<and> ((k, n) \<in> set es \<longrightarrow> k = kind_of q)"
  proof (cases "p_kind p")
    case Root
    with ns q es show ?thesis
      by (auto simp: plan_names_def tree_children_def in_catalog_def kind_of_def split: if_splits)
  next
    case DbNamespace
    with ns q es have "es = map (Pair Directory) (databases cat)" and "q = mk_plan ListTables (Some n) None"
      by (auto simp: plan_names_def tree_children_def split: if_splits)
    then show ?thesis by (auto simp: in_catalog_def kind_of_def snd_Pair_image)
  next
    case ListTables
    then obtain d where d: "p_db p = Some d" using wf by (auto simp: plan_wf_def)
    with ListTables ns q es have "es = map (Pair Directory) (tables_of cat d)"
      and "q = mk_plan ListPartitions (Some d) (Some n)"
      by (auto simp: plan_names_def tree_children_def split: if_splits)
    then show ?thesis by (auto simp: in_catalog_def kind_of_def snd_Pair_image)
  next
    case ListPartitions
    then obtain d t where dt: "p_db p = Some d" "p_table p = Some t"
      "valid_db_or_table d" "valid_db_or_table t"
      using wf by (auto simp: plan_wf_def)
    have es: "es = table_entries @ part_entries (partitions_of cat d t)"
      using es ListPartitions dt by (simp add: tree_children_def)
    have t: "t \<in> set (tables_of cat d)" using c ListPartitions dt by (simp add: in_catalog_def)
    have part: "''all'' \<notin> set (partitions_of cat d t)" using all dt by (simp add: no_all_def)
    have files: "(k, n) \<in> set es \<Longrightarrow> k = RegularFile" by (auto simp: es table_entries_def part_entries_def)
    have names: "snd ` set es = {''.schema'', ''README.md'', ''all.tsv''}
        \<union> (\<lambda>s. s @ ''.tsv'') ` set (partitions_of cat d t)"
      by (simp add: es table_entries_def part_entries_def image_Un image_image insert_commute)
    have "resolve_leaf d t n = Ok q"
      using q ns ListPartitions dt by (simp add: plan_names_def split: if_splits)
    then show ?thesis
    proof (cases rule: resolve_leaf_cases)
      case (fixed kk)
      then have "in_catalog cat q" and "kind_of q = RegularFile" and "n \<in> snd ` set es"
        unfolding names using t by (auto simp: in_catalog_def kind_of_def)
      with files show ?thesis by simp
    next
      case (part s)
      then have "n \<in> snd ` set es \<longleftrightarrow> s \<in> set (partitions_of cat d t)"
        unfolding names by (auto simp: part_file_not_special)
      moreover have "in_catalog cat q \<longleftrightarrow> s \<in> set (partitions_of cat d t)" and "kind_of q = RegularFile"
        using part(3) by (simp_all add: in_catalog_def kind_of_def)
      ultimately show ?thesis using files by simp
    qed
  qed (use es in \<open>auto simp: tree_children_def\<close>)
  then show "in_catalog cat q \<longleftrightarrow> n \<in> snd ` set es" and "(k, n) \<in> set es \<Longrightarrow> k = kind_of q" by auto
qed

section \<open>Names that a directory admits\<close>

text \<open>
  The names that the resolver accepts below a directory.  A name that it does not accept gives
  ENOENT, whether the server lists it or not.
\<close>

definition admits :: "query_plan \<Rightarrow> string \<Rightarrow> bool" where
  "admits p n =
     (case p_kind p of
        Root \<Rightarrow> n = ''db''
      | DbNamespace \<Rightarrow> valid_db_or_table n
      | ListTables \<Rightarrow> valid_db_or_table n
      | ListPartitions \<Rightarrow> n \<in> {''.schema'', ''README.md'', ''all.tsv''}
          \<or> (\<exists>s. n = s @ ''.tsv'' \<and> valid_identifier s)
      | _ \<Rightarrow> False)"

lemma leaf_resolves:
  "(case resolve_leaf d t n of
      Inl err \<Rightarrow> to_errno err = ENOENT \<and> n \<notin> {''.schema'', ''README.md'', ''all.tsv''}
        \<and> (\<forall>s. n = s @ ''.tsv'' \<longrightarrow> \<not> valid_identifier s)
    | Inr q \<Rightarrow> n \<in> {''.schema'', ''README.md'', ''all.tsv''} \<or> (\<exists>s. n = s @ ''.tsv'' \<and> valid_identifier s))"
proof (cases "suffix ''.tsv'' n")
  case True
  then obtain s where "n = s @ ''.tsv''" by (auto simp: suffix_def)
  then show ?thesis by (auto simp: resolve_leaf_partition)
next
  case False
  then have "n \<noteq> s @ ''.tsv''" for s by (auto simp: suffix_def)
  then show ?thesis using False by (auto simp: resolve_leaf_def)
qed

lemma leaf_file: "resolve_leaf d t n = Ok p \<Longrightarrow> \<not> admits p m"
  by (erule resolve_leaf_cases) (auto simp: admits_def)

lemma child_resolves:
  assumes "resolve_comps ns = Ok p"
  shows "case resolve_comps (ns @ [n]) of
      Inl err \<Rightarrow> to_errno err = ENOENT \<and> \<not> admits p n
    | Inr q \<Rightarrow> admits p n"
proof (cases "p_kind p")
  case Root
  with resolve_comps_wf [OF assms] show ?thesis by (auto simp: plan_names_def admits_def)
next
  case DbNamespace
  with resolve_comps_wf [OF assms] show ?thesis by (auto simp: plan_names_def admits_def)
next
  case ListTables
  with resolve_comps_wf [OF assms] show ?thesis by (auto simp: plan_wf_def plan_names_def admits_def)
next
  case ListPartitions
  then obtain d t where "ns = [''db'', d, t]" "valid_db_or_table d" "valid_db_or_table t"
    using resolve_comps_wf [OF assms] by (auto simp: plan_wf_def plan_names_def)
  with ListPartitions leaf_resolves [where d = d and t = t and n = n] show ?thesis
    by (auto simp: admits_def split: sum.splits)
qed (use resolve_comps_wf [OF assms] in \<open>auto simp: plan_names_def admits_def Let_def\<close>)

section \<open>Known names are in the catalogue\<close>

text \<open>Every known name that denotes something denotes an object of the catalogue.\<close>

definition nodes_in :: "catalog \<Rightarrow> nodes \<Rightarrow> bool" where
  "nodes_in cat nd \<longleftrightarrow> (\<forall>i ns p. nd i = Some ns \<and> resolve_comps ns = Ok p \<longrightarrow> in_catalog cat p)"

lemma nodes_in_root: "nodes_in cat tree_root"
  by (auto simp: nodes_in_def tree_root_def in_catalog_def split: if_splits)

lemma nodes_in_binds:
  "nodes_in cat nd \<Longrightarrow> binds nd ns i nd' \<Longrightarrow> (\<And>p. resolve_comps ns = Ok p \<Longrightarrow> in_catalog cat p) \<Longrightarrow> nodes_in cat nd'"
  by (auto simp: nodes_in_def binds_def)

lemma nodes_in_page:
  assumes "page short dir ns k es nd out nd'" and "nodes_in cat nd"
    and "\<And>kd n p. (kd, n) \<in> set es \<Longrightarrow> n \<noteq> ''.'' \<Longrightarrow> n \<noteq> ''..'' \<Longrightarrow> resolve_comps (ns @ [n]) = Ok p \<Longrightarrow> in_catalog cat p"
  shows "nodes_in cat nd'"
  using assms
proof (induction rule: page.induct)
  case (full n nd i nd' k kd es)
  have "in_catalog cat p" if "n \<noteq> ''.''" "n \<noteq> ''..''" "resolve_comps (ns @ [n]) = Ok p" for p
    using full.prems(2) that by auto
  with full(2) full.prems(1) show ?case
    using nodes_in_binds by (auto simp: entry_binds_def split: if_splits)
next
  case (more n nd i nd1 k es out nd' kd)
  have "in_catalog cat p" if "n \<noteq> ''.''" "n \<noteq> ''..''" "resolve_comps (ns @ [n]) = Ok p" for p
    using more.prems(2) that by auto
  with more(1) more.prems(1) have "nodes_in cat nd1"
    using nodes_in_binds by (auto simp: entry_binds_def split: if_splits)
  with more show ?case by auto
qed simp

lemma nodes_in_step:
  assumes s: "tree_step cat attr up short nd req rep nd'" and nd: "nodes_in cat nd" and all: "no_all cat"
  shows "nodes_in cat nd'"
  using s
proof cases
  case (lookup_found parent ns n p i)
  then show ?thesis using nodes_in_binds [OF nd, of "ns @ [n]" i] by auto
next
  case (readdir_page i ns p es off out)
  have c: "in_catalog cat p" using nd readdir_page by (auto simp: nodes_in_def)
  have "in_catalog cat q" if "(kd, n) \<in> set (drop (unat off) (dots @ es))" "n \<noteq> ''.''" "n \<noteq> ''..''"
    "resolve_comps (ns @ [n]) = Ok q" for kd n q
  proof -
    have "(kd, n) \<in> set es" using in_set_dropD [OF that(1)] that(2,3) by (auto simp: dots_def)
    then show ?thesis
      using tree_listing_agrees(1) [OF _ _ c all that(4)] readdir_page by force
  qed
  with nodes_in_page [OF _ nd] readdir_page show ?thesis by blast
next
  case (readdir_fixed i ns p off out)
  have c: "in_catalog cat p" using nd readdir_fixed by (auto simp: nodes_in_def)
  have "in_catalog cat q" if "(kd, n) \<in> set (drop (unat off) (dots @ table_entries))" "n \<noteq> ''.''" "n \<noteq> ''..''"
    "resolve_comps (ns @ [n]) = Ok q" for kd n q
  proof -
    have "(kd, n) \<in> set table_entries" using in_set_dropD [OF that(1)] that(2,3) by (auto simp: dots_def)
    moreover have "\<exists>ps. tree_children cat p = Some (table_entries @ ps)"
      using readdir_fixed by (simp add: tree_children_def)
    ultimately show ?thesis
      using tree_listing_agrees(1) [OF _ _ c all that(4)] readdir_fixed by force
  qed
  with nodes_in_page [OF _ nd] readdir_fixed show ?thesis by blast
qed (use nd in simp_all)

lemma nodes_in_run:
  "tree_run cat attr up short nd reqs reps nd' \<Longrightarrow> no_all cat \<Longrightarrow> nodes_in cat nd \<Longrightarrow> nodes_in cat nd'"
  by (induction rule: tree_run.induct) (auto intro: nodes_in_step)

section \<open>Nothing beside the listings\<close>

text \<open>The directory of every known name is known; so every object on the way to it is one of the catalogue.\<close>

definition rooted :: "nodes \<Rightarrow> bool" where
  "rooted nd \<longleftrightarrow> (\<forall>i ns n. nd i = Some (ns @ [n]) \<longrightarrow> (\<exists>j. nd j = Some ns))"

lemma rooted_root: "rooted tree_root"
  by (auto simp: rooted_def tree_root_def split: if_splits)

lemma rooted_binds:
  assumes "rooted nd" and "binds nd (ns @ [n]) i nd'" and "nd dir = Some ns"
  shows "rooted nd' \<and> nd' dir = Some ns"
proof -
  have nd': "nd' = nd(i \<mapsto> ns @ [n])" and old: "nd i = None \<or> nd i = Some (ns @ [n])"
    using assms(2) by (simp_all add: binds_def)
  have dir: "nd' dir = Some ns" using assms(3) old nd' by (cases "dir = i") simp_all
  have stay: "nd' j = Some ms" if "nd j = Some ms" for j ms
    using that old nd' by (cases "j = i") simp_all
  have "\<exists>j. nd' j = Some ms" if k: "nd' k = Some (ms @ [m])" for k ms m
  proof (cases "k = i")
    case True
    then have "ms = ns" using k nd' by simp
    then show ?thesis using dir by blast
  next
    case False
    then have "nd k = Some (ms @ [m])" using k nd' by simp
    then show ?thesis using assms(1) stay unfolding rooted_def by blast
  qed
  with dir show ?thesis unfolding rooted_def by blast
qed

lemma rooted_page:
  assumes "page short dir ns k es nd out nd'" and "rooted nd" and "nd dir = Some ns"
  shows "rooted nd'"
  using assms
  by (induction rule: page.induct) (auto simp: entry_binds_def dest: rooted_binds split: if_splits)

lemma rooted_step: "tree_step cat attr up short nd req rep nd' \<Longrightarrow> rooted nd \<Longrightarrow> rooted nd'"
  by (erule tree_step.cases) (auto dest: rooted_binds rooted_page)

lemma rooted_run: "tree_run cat attr up short nd reqs reps nd' \<Longrightarrow> rooted nd \<Longrightarrow> rooted nd'"
  by (induction rule: tree_run.induct) (auto intro: rooted_step)

lemma rooted_prefix: "rooted nd \<Longrightarrow> nd i = Some (ns @ ms) \<Longrightarrow> \<exists>j. nd j = Some ns"
proof (induction ms arbitrary: i rule: rev_induct)
  case (snoc m ms)
  from snoc.prems have "nd i = Some ((ns @ ms) @ [m])" by simp
  then obtain j where "nd j = Some (ns @ ms)" using snoc.prems(1) unfolding rooted_def by blast
  with snoc.IH snoc.prems(1) show ?case by blast
qed auto

lemma nodes_listed:
  assumes "rooted nd" and nd: "nodes_in cat nd" and i: "nd i = Some ns" and p: "resolve_comps ns = Ok p"
    and d: "p_db p = Some d"
  shows "d \<in> set (databases cat)" and "p_table p = Some t \<Longrightarrow> t \<in> set (tables_of cat d)"
proof -
  have wf: "plan_wf p" and ns: "ns = plan_names p" using resolve_comps_wf [OF p] by simp_all
  then have d_ok: "valid_db_or_table d" using d by (auto simp: plan_wf_def split: plan_kind.splits)
  have "\<exists>ms. ns = [''db'', d] @ ms"
    using wf ns d by (auto simp: plan_wf_def plan_names_def Let_def split: plan_kind.splits)
  then obtain j where "nd j = Some [''db'', d]" using rooted_prefix [OF assms(1)] i by metis
  moreover have "resolve_comps [''db'', d] = Ok (mk_plan ListTables (Some d) None)" using d_ok by simp
  ultimately have "in_catalog cat (mk_plan ListTables (Some d) None)"
    using nd unfolding nodes_in_def by blast
  then show "d \<in> set (databases cat)" by (simp add: in_catalog_def)
  assume t: "p_table p = Some t"
  then have t_ok: "valid_db_or_table t" using wf by (auto simp: plan_wf_def split: plan_kind.splits)
  have "\<exists>ms. ns = [''db'', d, t] @ ms"
    using wf ns d t by (auto simp: plan_wf_def plan_names_def Let_def split: plan_kind.splits)
  then obtain k where "nd k = Some [''db'', d, t]" using rooted_prefix [OF assms(1)] i by metis
  moreover have "resolve_comps [''db'', d, t] = Ok (mk_plan ListPartitions (Some d) (Some t))"
    using d_ok t_ok by simp
  ultimately have "in_catalog cat (mk_plan ListPartitions (Some d) (Some t))"
    using nd unfolding nodes_in_def by blast
  then show "t \<in> set (tables_of cat d)" by (simp add: in_catalog_def)
qed

section \<open>Lookup and readdir agree\<close>

lemma page_entries:
  assumes "page False dir ns k es nd out nd'"
  shows "map (\<lambda>d. (de_kind d, de_name d)) out = es"
  using assms by (induction rule: page.induct) auto

lemma attr_kind [simp]: "fa_kind (attr_for_plan fs i p) = kind_of p"
  by (auto simp: attr_for_plan_def dir_attr_def file_attr_of_def kind_of_def)

lemma entry_reply_inj: "entry_reply q = entry_reply r \<longleftrightarrow> q = r"
  by (cases q; cases r) (auto simp: entry_reply_def)

text \<open>One readdir with a buffer that is never full, and a lookup in the state that it left.\<close>

lemma lookup_agrees:
  assumes R: "tree_rel True (x_env x) d cat attr nd fs" and c: "nodes_in cat nd" and all: "no_all cat"
    and r: "fs_readdir x (\<lambda>_ _. False) i 0 fs w1 = Some (Ok out, fs1, w2)"
    and path: "path_of fs i = Ok path" and rp: "resolve path = Ok p" and n: "entry_name n"
    and l: "fs_lookup x i n fs1 w3 = Some (res, fs2, w4)"
  shows "(case res of
      Inl err \<Rightarrow> err = ENOENT \<and> \<not> (n \<in> de_name ` set out \<and> admits p n)
    | Inr a \<Rightarrow> n \<in> de_name ` set out \<and> admits p n \<and>
        (\<forall>dent \<in> set out. de_name dent = n \<longrightarrow> fa_ino a = de_ino dent \<and> fa_kind a = de_kind dent))"
proof -
  have pn: "plain_name n" and un: "utf8_valid n" using n by (simp_all add: entry_name_def)
  have known: "inode_lookup (inodes fs) i = Some path"
    using path by (auto simp: path_of_def split: option.splits)
  note nd = tree_rel_path(3) [OF R known]
  have p: "resolve_comps (path_comps path) = Ok p" using clean_resolve [of path] nd rp by simp
  note child = child_resolves [OF p, of n]
  obtain nd1 where st: "tree_step cat attr True False nd (ReqReaddir i 0) (RepDir (Ok out)) nd1"
    and R1: "tree_rel True (x_env x) d cat attr nd1 fs1"
    using sim_readdir [OF R r] by auto
  from st obtain es where
    es: "tree_children cat p = Some es" "page False i (path_comps path) 0 (dots @ es) nd out nd1"
    using nd p by (auto elim: readdir_stepE)
  have names: "map (\<lambda>d. (de_kind d, de_name d)) out = dots @ es" using page_entries [OF es(2)] .
  have cp: "in_catalog cat p" using c p nd by (auto simp: nodes_in_def)
  note agree = tree_listing_agrees [OF p es(1) cp all]
  have nd_n: "n \<noteq> ''.''" "n \<noteq> ''..''" using pn by (simp_all add: plain_name_def)
  have listed: "n \<in> de_name ` set out \<longleftrightarrow> n \<in> snd ` set es"
  proof -
    have "de_name ` set out = snd ` set (dots @ es)"
      unfolding names [symmetric] by (simp add: image_image)
    then show ?thesis using nd_n by (auto simp: dots_def)
  qed
  have kind: "de_kind dent = kind_of q"
    if "dent \<in> set out" "de_name dent = n" "resolve_comps (path_comps path @ [n]) = Ok q" for dent q
  proof -
    have "(de_kind dent, n) \<in> set (dots @ es)"
      unfolding names [symmetric] using that by force
    then show ?thesis using agree(2) [OF that(3)] nd_n by (auto simp: dots_def)
  qed
  have wf: "inode_wf (inodes fs)" using R by (simp add: tree_rel_def table_clean_def)
  have same: "fa_ino a = de_ino dent" if "res = Ok a" "dent \<in> set out" "de_name dent = n" for a dent
  proof -
    have stay: "fs_run x (\<lambda>_ _. False) [] fs1 w3 = Some ([], fs1, w3)" by simp
    have "fs_lookup x i (de_name dent) fs1 w3 = Some (Ok a, fs2, w4)" using l that by simp
    from readdir_lookup_same_ino [OF wf r that(2) _ _ stay this] that(3) nd_n show ?thesis by simp
  qed
  obtain nd2 where st2: "tree_step cat attr True False nd1 (ReqLookup i n) (entry_reply res) nd2"
    using sim_lookup [OF R1 pn l] by blast
  have nd1: "nd1 i = Some (path_comps path)"
  proof -
    have "inode_lookup (inodes fs1) i = Some path"
      using readdir_grow [OF wf r] known wf by (simp add: inodes_grow_def)
    then show ?thesis using tree_rel_path(3) [OF R1] by simp
  qed
  have attr: "attr = attr_for_plan fs" using R by (simp add: tree_rel_def)
  show ?thesis
  proof (cases "resolve_comps (path_comps path @ [n])")
    case (Inl err)
    with st2 have "res = Err (to_errno err)"
      by (elim lookup_stepE) (use nd1 un in \<open>auto simp: entry_reply_inj\<close>)
    then show ?thesis using child Inl by simp
  next
    case (Inr q)
    from st2 have "(res = Err ENOENT \<and> \<not> in_catalog cat q) \<or> (\<exists>j. res = Ok (attr j q) \<and> in_catalog cat q)"
      by (rule lookup_stepE) (use nd1 un Inr in \<open>auto simp: entry_reply_inj\<close>)
    then show ?thesis
    proof (elim disjE exE conjE)
      assume "res = Err ENOENT" and "\<not> in_catalog cat q"
      with listed agree(1) [OF Inr] show ?thesis by simp
    next
      fix j assume res: "res = Ok (attr j q)" and "in_catalog cat q"
      then have "n \<in> de_name ` set out" and "admits p n" using listed agree(1) [OF Inr] child Inr by simp_all
      moreover have "fa_ino (attr j q) = de_ino dent \<and> fa_kind (attr j q) = de_kind dent"
        if "dent \<in> set out" "de_name dent = n" for dent
        using same [OF res that] kind [OF that Inr] attr by simp
      ultimately show ?thesis using res by simp
    qed
  qed
qed

lemma run_listed:
  assumes "serves up (x_env x) d cat" and "catalog_ok cat" and "no_all cat" and "list_all kernel_request reqs"
    and "fs_run x full reqs (clickfs_new d cfg u g t0) w = Some (replies, fs, w')"
    and i: "path_of fs i = Ok path" and p: "resolve path = Ok p" and b: "p_db p = Some b"
  shows "b \<in> set (databases cat) \<and> (\<forall>t. p_table p = Some t \<longrightarrow> t \<in> set (tables_of cat b))"
proof -
  obtain nd where nd: "tree_run cat (attr_for_plan (clickfs_new d cfg u g t0)) up (\<exists>a d. full a d)
      tree_root reqs replies nd"
    and R: "tree_rel up (x_env x) d cat (attr_for_plan (clickfs_new d cfg u g t0)) nd fs"
    using run_rel [OF assms(1,2,4,5)] by blast
  have "inode_lookup (inodes fs) i = Some path"
    using i by (auto simp: path_of_def split: option.splits)
  note path = tree_rel_path(3) [OF R this]
  then have "resolve_comps (path_comps path) = Ok p" using clean_resolve [of path] p by simp
  with nodes_listed [OF rooted_run [OF nd rooted_root] nodes_in_run [OF nd assms(3) nodes_in_root] _ _ b]
    path show ?thesis by auto
qed

end
