(* ===== verification/Producer.thy ===== *)
theory Producer
  imports StreamHandle
begin

text \<open>
  The spawned task of \<open>StreamHandle::spawn\<close> (\<open>src/stream.rs\<close>) and the bounded channel between it
  and the reader, as two step relations that interleave.

  The task waits in \<open>select!\<close> for a cancellation or the next chunk, and then in \<open>send\<close> for room in
  the channel.  \<open>notify_waiters\<close> reaches a \<open>Notified\<close> future only while one exists, which is while
  the task is in \<open>select!\<close>; when both branches are ready either may be taken, and taking the chunk
  drops the future and with it the notification.  The upstream list holds the chunks that have yet
  to arrive, so a chunk step stands for its arrival, at whatever time.
\<close>

datatype task_pc = Starting | Waiting | Sending item | SendingLast item | Finished

record pipe =
  pc :: task_pc
  response :: "query_error + item list"
  upstream :: "item list"
  woken :: bool
  chan :: "item list"
  rx_open :: bool
  received :: "item list"
  eof_seen :: bool
  cancel_called :: bool

definition chan_capacity :: nat where "chan_capacity = 8"

definition prod_init :: "query_error + item list \<Rightarrow> pipe" where
  "prod_init res =
     \<lparr>pc = Starting, response = res, upstream = [], woken = False, chan = [], rx_open = True,
      received = [], eof_seen = False, cancel_called = False\<rparr>"

text \<open>The steps of the task.\<close>

inductive task_step :: "pipe \<Rightarrow> pipe \<Rightarrow> bool" where
  connected: "pc s = Starting \<Longrightarrow> response s = Inr r \<Longrightarrow>
    task_step s (s\<lparr>pc := Waiting, upstream := r, woken := False\<rparr>)"
| refused: "pc s = Starting \<Longrightarrow> response s = Inl e \<Longrightarrow>
    task_step s (s\<lparr>pc := SendingLast (Err e)\<rparr>)"
| cancelled: "pc s = Waiting \<Longrightarrow> woken s \<Longrightarrow> task_step s (s\<lparr>pc := Finished\<rparr>)"
| chunk: "pc s = Waiting \<Longrightarrow> upstream s = Inr b # r \<Longrightarrow>
    task_step s (s\<lparr>pc := Sending (Ok b), upstream := r, woken := False\<rparr>)"
| failed: "pc s = Waiting \<Longrightarrow> upstream s = Inl e # r \<Longrightarrow>
    task_step s (s\<lparr>pc := SendingLast (Err e), upstream := r, woken := False\<rparr>)"
| eof: "pc s = Waiting \<Longrightarrow> upstream s = [] \<Longrightarrow> task_step s (s\<lparr>pc := Finished\<rparr>)"
| sent: "pc s = Sending x \<Longrightarrow> rx_open s \<Longrightarrow> length (chan s) < chan_capacity \<Longrightarrow>
    task_step s (s\<lparr>pc := Waiting, chan := chan s @ [x], woken := False\<rparr>)"
| reader_gone: "pc s = Sending x \<Longrightarrow> \<not> rx_open s \<Longrightarrow> task_step s (s\<lparr>pc := Finished\<rparr>)"
| sent_last: "pc s = SendingLast x \<Longrightarrow> rx_open s \<Longrightarrow> length (chan s) < chan_capacity \<Longrightarrow>
    task_step s (s\<lparr>pc := Finished, chan := chan s @ [x]\<rparr>)"
| last_gone: "pc s = SendingLast x \<Longrightarrow> \<not> rx_open s \<Longrightarrow> task_step s (s\<lparr>pc := Finished\<rparr>)"

text \<open>The reader's two outcomes of \<open>recv\<close>; it sees the end when the sender is dropped.\<close>

inductive recv_step :: "pipe \<Rightarrow> pipe \<Rightarrow> bool" where
  item: "rx_open s \<Longrightarrow> chan s = x # c \<Longrightarrow> recv_step s (s\<lparr>chan := c, received := received s @ [x]\<rparr>)"
| closed: "rx_open s \<Longrightarrow> chan s = [] \<Longrightarrow> pc s = Finished \<Longrightarrow> \<not> eof_seen s \<Longrightarrow>
    recv_step s (s\<lparr>eof_seen := True\<rparr>)"

text \<open>\<open>cancel\<close>, and the drop of the receiver together with the handle.\<close>

definition prod_cancel :: "pipe \<Rightarrow> pipe" where
  "prod_cancel s = s\<lparr>woken := woken s \<or> pc s = Waiting, cancel_called := True\<rparr>"

definition prod_close :: "pipe \<Rightarrow> pipe" where
  "prod_close s = (prod_cancel s)\<lparr>rx_open := False, chan := []\<rparr>"

inductive prod_step :: "pipe \<Rightarrow> pipe \<Rightarrow> bool" where
  by_task: "task_step s s' \<Longrightarrow> prod_step s s'"
| by_recv: "recv_step s s' \<Longrightarrow> prod_step s s'"
| by_cancel: "prod_step s (prod_cancel s)"
| by_close: "prod_step s (prod_close s)"

inductive prod_reach :: "query_error + item list \<Rightarrow> pipe \<Rightarrow> bool" for res where
  start: "prod_reach res (prod_init res)"
| step: "prod_reach res s \<Longrightarrow> prod_step s s' \<Longrightarrow> prod_reach res s'"

section \<open>The invariant\<close>

text \<open>What the task would still put into the channel.\<close>

fun to_come_at :: "task_pc \<Rightarrow> query_error + item list \<Rightarrow> item list \<Rightarrow> item list" where
  "to_come_at Starting res up = task_items res"
| "to_come_at Waiting res up = upto_err up"
| "to_come_at (Sending x) res up = x # upto_err up"
| "to_come_at (SendingLast x) res up = [x]"
| "to_come_at Finished res up = []"

definition to_come :: "pipe \<Rightarrow> item list" where
  "to_come s = to_come_at (pc s) (response s) (upstream s)"

definition prod_inv :: "query_error + item list \<Rightarrow> pipe \<Rightarrow> bool" where
  "prod_inv res s \<longleftrightarrow>
     response s = res
   \<and> length (chan s) \<le> chan_capacity
   \<and> (woken s \<longrightarrow> cancel_called s)
   \<and> (\<not> rx_open s \<longrightarrow> cancel_called s \<and> chan s = [])
   \<and> (eof_seen s \<longrightarrow> pc s = Finished \<and> chan s = [])
   \<and> (rx_open s \<longrightarrow> prefix (received s @ chan s @ to_come s) (task_items res))
   \<and> prefix (received s) (task_items res)
   \<and> (\<not> cancel_called s \<longrightarrow> received s @ chan s @ to_come s = task_items res)"

lemma prod_init_inv [wf_intros]: "prod_inv res (prod_init res)"
  by (simp add: prod_inv_def prod_init_def to_come_def)

lemma prefix_stop: "prefix (r @ c @ t) xs \<Longrightarrow> prefix (r @ c) xs"
  by (metis append.assoc append_prefixD)

lemma task_step_inv:
  "task_step s s' \<Longrightarrow> prod_inv res s \<Longrightarrow> prod_inv res s'"
proof (induction rule: task_step.induct)
  case (cancelled s)
  then show ?case
    by (auto simp: prod_inv_def to_come_def dest: prefix_stop)
qed (auto simp: prod_inv_def to_come_def)

lemma recv_step_inv:
  "recv_step s s' \<Longrightarrow> prod_inv res s \<Longrightarrow> prod_inv res s'"
proof (induction rule: recv_step.induct)
  case (item s x c)
  then have "prefix (received s @ x # (c @ to_come s)) (task_items res)"
    by (simp add: prod_inv_def)
  then have "prefix (received s @ [x]) (task_items res)"
    by (metis append_Cons append_Nil append.assoc append_prefixD)
  with item show ?case by (auto simp: prod_inv_def to_come_def)
qed (auto simp: prod_inv_def to_come_def)

lemma prod_cancel_inv: "prod_inv res s \<Longrightarrow> prod_inv res (prod_cancel s)"
  by (auto simp: prod_inv_def prod_cancel_def to_come_def)

lemma prod_close_inv: "prod_inv res s \<Longrightarrow> prod_inv res (prod_close s)"
  by (auto simp: prod_inv_def prod_close_def prod_cancel_def to_come_def)

lemma prod_reach_inv: "prod_reach res s \<Longrightarrow> prod_inv res s"
proof (induction rule: prod_reach.induct)
  case (step s s')
  from step.hyps(2) step.IH show ?case
    by cases (simp_all add: task_step_inv recv_step_inv prod_cancel_inv prod_close_inv)
qed (rule prod_init_inv)

lemma prod_received_prefix: "prod_reach res s \<Longrightarrow> prefix (received s) (task_items res)"
  using prod_reach_inv by (simp add: prod_inv_def)

lemma prod_chan_bound: "prod_reach res s \<Longrightarrow> length (chan s) \<le> 8"
  using prod_reach_inv by (force simp: prod_inv_def chan_capacity_def)

lemma prod_eof_complete:
  assumes "prod_reach res s" and "eof_seen s" and "\<not> cancel_called s"
  shows "received s = task_items res"
  using prod_reach_inv [OF assms(1)] assms(2,3) by (auto simp: prod_inv_def to_come_def)

section \<open>Progress\<close>

text \<open>While nobody cancels, the task and the reader make progress until the end is seen.\<close>

inductive live_step :: "pipe \<Rightarrow> pipe \<Rightarrow> bool" where
  "task_step s s' \<Longrightarrow> live_step s s'"
| "recv_step s s' \<Longrightarrow> live_step s s'"

fun pc_rank :: "task_pc \<Rightarrow> query_error + item list \<Rightarrow> item list \<Rightarrow> nat" where
  "pc_rank Starting (Inl _) up = 4"
| "pc_rank Starting (Inr r) up = 3 * length r + 4"
| "pc_rank Waiting res up = 3 * length up + 1"
| "pc_rank (Sending _) res up = 3 * length up + 3"
| "pc_rank (SendingLast _) res up = 3"
| "pc_rank Finished res up = 0"

definition live_rank :: "pipe \<Rightarrow> nat" where
  "live_rank s =
     pc_rank (pc s) (response s) (upstream s) + length (chan s) + (if eof_seen s then 0 else 1)"

lemma live_step_rank: "live_step s s' \<Longrightarrow> live_rank s' < live_rank s"
  by (erule live_step.cases; erule task_step.cases recv_step.cases)
    (auto simp: live_rank_def)

lemma live_step_frame:
  "live_step s s' \<Longrightarrow> rx_open s' = rx_open s \<and> cancel_called s' = cancel_called s \<and> response s' = response s"
  by (erule live_step.cases; erule task_step.cases recv_step.cases) auto

lemma live_progress:
  assumes "rx_open s" and "\<not> eof_seen s"
  shows "\<exists>s'. live_step s s'"
proof (cases "chan s")
  case (Cons x c)
  then show ?thesis using assms recv_step.item live_step.intros(2) by blast
next
  case Nil
  then have room: "length (chan s) < chan_capacity" by (simp add: chan_capacity_def)
  show ?thesis
  proof (cases "pc s")
    case Starting
    then show ?thesis
      by (cases "response s") (blast intro: live_step.intros task_step.intros)+
  next
    case Waiting
    show ?thesis
    proof (cases "upstream s")
      case (Cons i r)
      with Waiting show ?thesis
        by (cases i) (blast intro: live_step.intros task_step.intros)+
    qed (use Waiting in \<open>blast intro: live_step.intros task_step.intros\<close>)
  qed (use assms room Nil in \<open>blast intro: live_step.intros task_step.intros recv_step.intros\<close>)+
qed

lemma live_run_bound: "(live_step ^^ n) s s' \<Longrightarrow> live_rank s' + n \<le> live_rank s"
proof (induction n arbitrary: s')
  case (Suc n)
  then obtain t where "(live_step ^^ n) s t" and "live_step t s'" by auto
  then show ?case using Suc.IH live_step_rank by fastforce
qed simp

lemma live_run_frame:
  "(live_step ^^ n) s s' \<Longrightarrow> rx_open s' = rx_open s \<and> cancel_called s' = cancel_called s"
proof (induction n arbitrary: s')
  case (Suc n)
  then obtain t where "(live_step ^^ n) s t" and "live_step t s'" by auto
  then show ?case using Suc.IH live_step_frame by metis
qed simp

lemma live_reach: "live_step s s' \<Longrightarrow> prod_reach res s \<Longrightarrow> prod_reach res s'"
  by (erule live_step.cases) (blast intro: prod_reach.step prod_step.intros)+

lemma live_run_reach: "(live_step ^^ n) s s' \<Longrightarrow> prod_reach res s \<Longrightarrow> prod_reach res s'"
  by (induction n arbitrary: s') (auto intro: live_reach)

text \<open>Every run without cancellation that can go no further has delivered everything.\<close>

lemma live_run_complete:
  assumes run: "(live_step ^^ n) (prod_init res) s" and "\<nexists>s'. live_step s s'"
  shows "received s = task_items res \<and> eof_seen s"
proof -
  have frame: "rx_open s" "\<not> cancel_called s"
    using live_run_frame [OF run] by (simp_all add: prod_init_def)
  then have "eof_seen s" using live_progress assms(2) by blast
  with frame prod_eof_complete [OF live_run_reach [OF run prod_reach.start]] show ?thesis by blast
qed

lemma live_run_length:
  assumes "(live_step ^^ n) (prod_init (Inr items)) s"
  shows "n \<le> 3 * length items + 5"
  using live_run_bound [OF assms] by (simp add: live_rank_def prod_init_def)

section \<open>After the handle is dropped\<close>

definition closed_rank :: "pipe \<Rightarrow> nat" where
  "closed_rank s =
     (case pc s of Starting \<Rightarrow> 3 | Waiting \<Rightarrow> 2 | Sending _ \<Rightarrow> 1 | SendingLast _ \<Rightarrow> 1 | Finished \<Rightarrow> 0)"

lemma closed_step:
  assumes "task_step s s'" and "\<not> rx_open s"
  shows "\<not> rx_open s' \<and> closed_rank s' < closed_rank s \<and> received s' = received s \<and> chan s' = chan s"
  using assms by (cases rule: task_step.cases) (auto simp: closed_rank_def)

lemma closed_run:
  "(task_step ^^ n) s s' \<Longrightarrow> \<not> rx_open s \<Longrightarrow>
   \<not> rx_open s' \<and> closed_rank s' + n \<le> closed_rank s \<and> received s' = received s \<and> chan s' = chan s"
proof (induction n arbitrary: s')
  case (Suc n)
  then obtain t where "(task_step ^^ n) s t" and "task_step t s'" by auto
  then show ?case using Suc.IH Suc.prems(2) closed_step by fastforce
qed simp

lemma closed_progress:
  assumes "\<not> rx_open s" and "pc s \<noteq> Finished"
  shows "\<exists>s'. task_step s s'"
proof (cases "pc s")
  case Starting
  then show ?thesis by (cases "response s") (blast intro: task_step.intros)+
next
  case Waiting
  show ?thesis
  proof (cases "upstream s")
    case (Cons i r)
    with Waiting show ?thesis by (cases i) (blast intro: task_step.intros)+
  qed (use Waiting in \<open>blast intro: task_step.intros\<close>)
qed (use assms in \<open>blast intro: task_step.intros\<close>)+

lemma closed_task_ends:
  assumes "\<not> rx_open s"
  shows "\<exists>n s'. n \<le> 3 \<and> (task_step ^^ n) s s' \<and> pc s' = Finished"
  using assms
proof (induction "closed_rank s" arbitrary: s rule: less_induct)
  case less
  show ?case
  proof (cases "pc s = Finished")
    case True
    then show ?thesis by (intro exI [of _ 0] exI [of _ s]) simp
  next
    case False
    then obtain t where t: "task_step s t" using closed_progress [OF less.prems] by blast
    with closed_step [OF t less.prems] less.hyps [of t] obtain n s'
      where run: "(task_step ^^ n) t s'" and fin: "pc s' = Finished" by blast
    have "(task_step ^^ Suc n) s s'" using t run by (rule relpowp_Suc_I2)
    moreover have "Suc n \<le> 3"
      using closed_run [OF \<open>(task_step ^^ Suc n) s s'\<close> less.prems]
      by (auto simp: closed_rank_def split: task_pc.splits)
    ultimately show ?thesis using fin by blast
  qed
qed

lemma closed_run_short:
  assumes "(task_step ^^ n) (prod_close s) s'"
  shows "n \<le> 3 \<and> received s' = received s \<and> ((\<nexists>t. task_step s' t) \<longleftrightarrow> pc s' = Finished)"
proof -
  have "\<not> rx_open (prod_close s)" by (simp add: prod_close_def)
  note run = closed_run [OF assms this]
  have "n \<le> 3"
    using run by (auto simp: closed_rank_def prod_close_def prod_cancel_def split: task_pc.splits)
  moreover have "(\<nexists>t. task_step s' t) \<longleftrightarrow> pc s' = Finished"
    using closed_progress [of s'] run by (auto elim: task_step.cases)
  ultimately show ?thesis using run by (simp add: prod_close_def prod_cancel_def)
qed

text \<open>
  A cancellation that arrives while the task is outside \<open>select!\<close> is lost: the state that the task
  sees is unchanged.
\<close>

lemma cancel_lost:
  "pc s \<noteq> Waiting \<Longrightarrow> prod_cancel s = s\<lparr>cancel_called := True\<rparr>"
  by (cases s) (simp add: prod_cancel_def)

end
