(* ===== verification/Demo.thy ===== *)
theory Demo
  imports Cli TreeProps Producer
begin

text \<open>
  A concrete server and file systems on it, at which the witnesses of the properties evaluate the
  model: the world is a clock, every request succeeds, and the inode hash is the length of the path.
\<close>

section \<open>A concrete server for the witnesses\<close>

text \<open>
  The world is a clock.  Every request succeeds: a text query is answered with one line \<open>t\<close>, a
  streamed one with two chunks.
\<close>

definition demo_env :: "nat env" where
  "demo_env =
     \<lparr>env_send = (\<lambda>rq w. (Ok \<lparr>rs_status = 200, rs_success = True, rs_header = (\<lambda>_. None),
         rs_text = Ok (''t'' @ [NL]), rs_chunks = [Ok ''a'', Ok ''b'']\<rparr>, w + 1)),
      env_now = (\<lambda>w. (w, w)),
      env_uuid = (\<lambda>w. (''0'', w))\<rparr>"

definition demo_json :: "unit json_api" where
  "demo_json = \<lparr>js_from_str = (\<lambda>_. None), js_get = (\<lambda>_ _. None), js_as_str = (\<lambda>_. None),
     js_as_u64 = (\<lambda>_. None)\<rparr>"

definition demo_ext :: "(nat, unit) ext" where
  "demo_ext = \<lparr>x_env = demo_env, x_json = demo_json, x_hash = (\<lambda>c. word_of_nat (length c) + 200)\<rparr>"

definition demo_driver :: "unit http_driver" where
  "demo_driver = \<lparr>base_url = ''http://h/'', user = ''u'', password = [], client = (),
     query_timeout_secs = 60, max_result_bytes = 1000, compression = compression_default\<rparr>"

definition demo_new :: "unit clickfs" where
  "demo_new = clickfs_new demo_driver \<lparr>tail_enabled = False, tail_rows = 10\<rparr> 0 0 0"

text \<open>A mounted file system that knows one more path, under the inode number 100.\<close>

definition demo_fs :: "string \<Rightarrow> unit clickfs" where
  "demo_fs path = demo_new\<lparr>inodes := inode_new\<lparr>
     forward := fmupd 100 path (forward inode_new),
     reverse := fmupd (components path) 100 (reverse inode_new)\<rparr>\<rparr>"

lemma demo_root: "path_of demo_new 1 = Ok ''/''"
  by (simp add: path_of_def inode_lookup_def demo_new_def clickfs_new_def inode_new_def INO_ROOT_def)

lemma demo_resolve_root: "resolve ''/'' = Ok (mk_plan Root None None)"
  by code_simp

lemma demo_db: "path_join ''/'' ''db'' = ''/db''" "components ''/db'' = [RootDir, Normal ''db'']"
  "resolve ''/db'' = Ok (mk_plan DbNamespace None None)" "utf8_valid ''db''"
  by code_simp+

definition demo_table :: inode_table where
  "demo_table = inode_new\<lparr>forward := fmupd 202 ''/db'' (forward inode_new),
     reverse := fmupd [RootDir, Normal ''db''] 202 (reverse inode_new)\<rparr>"

lemma demo_alloc_db: "inode_allocate (x_hash demo_ext) ''/db'' inode_new = Some (202, demo_table)"
proof -
  have "max (inode_hash (x_hash demo_ext) ''/db'') 100 = 202"
    by (simp add: inode_hash_def demo_ext_def demo_db)
  moreover have "probe ''/db'' 202 inode_new = Some (202, demo_table)"
    by (subst probe.simps) (simp add: demo_db inode_new_def INO_ROOT_def demo_table_def)
  ultimately show ?thesis
    by (simp add: inode_allocate_def demo_db) (simp add: inode_new_def)
qed

lemma demo_readdir:
  "\<exists>out. fs_readdir demo_ext (\<lambda>_ _. False) 1 2 demo_new 0 = Some (Ok [out], demo_new\<lparr>inodes := demo_table\<rparr>, 0)
     \<and> de_name out = ''db'' \<and> de_ino out = 202"
proof -
  have "inodes demo_new = inode_new" by (simp add: demo_new_def clickfs_new_def)
  then show ?thesis
    by (simp add: fs_readdir_def demo_root demo_resolve_root dir_entries_def dots_def demo_db demo_alloc_db)
qed

lemma demo_table_wf: "inode_wf demo_table"
  using inode_allocate_wf [OF inode_new_wf demo_alloc_db] .

lemma demo_lookup:
  "\<exists>a. fs_lookup demo_ext 1 ''db'' (demo_new\<lparr>inodes := demo_table\<rparr>) 0 =
     Some (Ok a, demo_new\<lparr>inodes := demo_table\<rparr>, 0) \<and> fa_ino a = 202"
proof -
  have "inode_allocate (x_hash demo_ext) ''/db'' demo_table = Some (202, demo_table)"
    by (rule inode_allocate_known [OF demo_table_wf, of _ "''/db''"])
      (simp_all add: demo_table_def inode_lookup_def path_eq_def)
  moreover have "path_of (demo_new\<lparr>inodes := demo_table\<rparr>) 1 = Ok ''/''"
    by (simp add: path_of_def demo_table_def inode_lookup_def inode_new_def INO_ROOT_def)
  ultimately show ?thesis
    by (simp add: fs_lookup_def to_str_def demo_db verify_plan_exists_def del: utf8_valid.simps)
qed

definition demo_catalog :: catalog where
  "demo_catalog = \<lparr>databases = [''t''], tables_of = (\<lambda>_. [''t'']), partitions_of = (\<lambda>_ _. [''t''])\<rparr>"

lemma demo_serves: "serves True demo_env demo_driver demo_catalog"
proof -
  have "nonempty_lines (''t'' @ [NL]) = [''t'']" "partition_lines (''t'' @ [NL]) = [''t'']" by code_simp+
  then show ?thesis by (simp add: serves_def answers_def demo_env_def demo_catalog_def)
qed

lemma demo_catalog_ok: "catalog_ok demo_catalog"
proof -
  have "entry_name ''t''" "entry_name ''t.tsv''" by code_simp+
  then show ?thesis by (simp add: catalog_ok_def demo_catalog_def)
qed

lemma demo_lookup_new:
  "\<exists>a. fs_lookup demo_ext 1 ''db'' demo_new 0 = Some (Ok a, demo_new\<lparr>inodes := demo_table\<rparr>, 0)"
proof -
  have "inodes demo_new = inode_new" by (simp add: demo_new_def clickfs_new_def)
  then show ?thesis
    by (simp add: fs_lookup_def to_str_def demo_root demo_db demo_alloc_db verify_plan_exists_def
        del: utf8_valid.simps)
qed

lemma demo_run_t:
  "\<exists>replies fs w'. fs_run demo_ext (\<lambda>_ _. False) [ReqLookup 1 ''db'', ReqLookup 202 ''t''] demo_new 0 =
      Some (replies, fs, w') \<and> path_of fs 203 = Ok ''/db/t''"
proof -
  let ?fs = "demo_new\<lparr>inodes := demo_table\<rparr>"
  obtain a where a: "fs_lookup demo_ext 1 ''db'' demo_new 0 = Some (Ok a, ?fs, 0)"
    using demo_lookup_new by blast
  have path: "path_of ?fs 202 = Ok ''/db''" by (simp add: path_of_def demo_table_def inode_lookup_def)
  have t: "path_join ''/db'' ''t'' = ''/db/t''" "components ''/db/t'' = [RootDir, Normal ''db'', Normal ''t'']"
    "resolve ''/db/t'' = Ok (mk_plan ListTables (Some ''t'') None)" "utf8_valid ''t''"
    "nonempty_lines (''t'' @ [NL]) = [''t'']" by code_simp+
  have "max (inode_hash (x_hash demo_ext) ''/db/t'') 100 = 203"
    by (simp add: inode_hash_def demo_ext_def t)
  moreover have "\<exists>tb. probe ''/db/t'' 203 demo_table = Some (203, tb) \<and> inode_lookup tb 203 = Some ''/db/t''"
    by (subst probe.simps) (simp add: t demo_table_def inode_new_def INO_ROOT_def inode_lookup_def)
  ultimately obtain tb where tb: "inode_allocate (x_hash demo_ext) ''/db/t'' demo_table = Some (203, tb)"
    "inode_lookup tb 203 = Some ''/db/t''"
    by (auto simp: inode_allocate_def t demo_table_def inode_new_def)
  have "db_cache ?fs = cache_new cache_ttl" by (simp add: demo_new_def clickfs_new_def)
  then have "\<exists>c. fetch_databases demo_env ?fs 0 = (Ok [''t''], ?fs\<lparr>db_cache := c\<rparr>, 1)"
    using t(5)
    by (simp add: fetch_databases_def fetch_cached_def cache_get_def cache_new_def query_text_def demo_env_def Let_def)
      blast
  then obtain c where c: "fetch_databases demo_env ?fs 0 = (Ok [''t''], ?fs\<lparr>db_cache := c\<rparr>, 1)" by blast
  have env: "x_env demo_ext = demo_env" by (simp add: demo_ext_def)
  have "\<exists>r fs. fs_lookup demo_ext 202 ''t'' ?fs 0 = Some (r, fs, 1) \<and> path_of fs 203 = Ok ''/db/t''"
    using tb path c
    by (simp add: fs_lookup_def to_str_def t verify_plan_exists_def check_listed_def env path_of_def
        del: utf8_valid.simps)
  with a show ?thesis by auto
qed

section \<open>Handles, pipes and caches\<close>

lemma demo_stream:
  "fst (query_stream_with_id demo_env d sql q w) = Ok [Ok ''a'', Ok ''b'']"
  by (simp add: query_stream_with_id_def demo_env_def stream_item_def)

lemmas demo_open_defs =
  O_ACCMODE_def O_RDONLY_def open_handle_def open_stream_def fetch_describe_def query_text_def
  demo_ext_def demo_env_def demo_fs_def demo_new_def clickfs_new_def Let_def

lemma demo_open_twice:
  "\<exists>fs' w'. fs_run demo_ext (\<lambda>_ _. False) [ReqOpen 100 0, ReqOpen 100 0] (demo_fs ''/db/d/t/.schema'') 0 =
     Some ([open_reply (Ok 1), open_reply (Ok 2)], fs', w')"
proof -
  let ?p = "mk_plan DescribeTable (Some ''d'') (Some ''t'')"
  have res: "resolve ''/db/d/t/.schema'' = Ok ?p" by code_simp
  have path: "path_of ((demo_fs ''/db/d/t/.schema'')\<lparr>fh_counter := k, handles := m\<rparr>) 100 = Ok ''/db/d/t/.schema''" for k m
    by (simp add: path_of_def inode_lookup_def demo_fs_def)
  have "fs_open demo_ext 100 0 ((demo_fs ''/db/d/t/.schema'')\<lparr>fh_counter := k, handles := m\<rparr>) w =
      (Ok k, (demo_fs ''/db/d/t/.schema'')\<lparr>fh_counter := k + 1, handles := fmupd k (HSpecial (''t'' @ [NL])) m\<rparr>, w + 1)"
    for k m w
    by (simp add: fs_open_def O_RDONLY_def path res open_handle_def fetch_describe_def query_text_def
        demo_ext_def demo_env_def Let_def)
  then have "\<exists>fs' w'. fs_run demo_ext (\<lambda>_ _. False) [ReqOpen 100 0, ReqOpen 100 0]
      ((demo_fs ''/db/d/t/.schema'')\<lparr>fh_counter := 1, handles := fmempty\<rparr>) 0 =
        Some ([open_reply (Ok 1), open_reply (Ok 2)], fs', w')"
    by simp
  moreover have "(demo_fs ''/db/d/t/.schema'')\<lparr>fh_counter := 1, handles := fmempty\<rparr> = demo_fs ''/db/d/t/.schema''"
    by (simp add: demo_fs_def demo_new_def clickfs_new_def)
  ultimately show ?thesis by simp
qed

definition demo_stream_handle :: "unit stream_handle" where
  "demo_stream_handle =
     \<lparr>sh_inner = inner_new [], reverse_warned = False, sh_query_id = ''clickfs-0'',
      sh_driver = demo_driver,
      sh_tail = Some \<lparr>tc_db = ''d'', tc_tbl = ''t'', tc_order_expr = ''c'', tc_partition = None,
                      tc_cfg = tail_default\<rparr>\<rparr>"

definition demo_pipe :: "task_pc \<Rightarrow> item list \<Rightarrow> item list \<Rightarrow> item list \<Rightarrow> bool \<Rightarrow> pipe" where
  "demo_pipe c up ch rc ef =
     \<lparr>pc = c, response = Ok [Ok ''a''], upstream = up, woken = False, chan = ch, rx_open = True,
      received = rc, eof_seen = ef, cancel_called = False\<rparr>"

lemma demo_pipe_run:
  "(live_step ^^ 6) (prod_init (Ok [Ok ''a''])) (demo_pipe Finished [] [] [Ok ''a''] True)"
proof -
  note intro = live_step.intros(1) live_step.intros(2)
  have 1: "live_step (prod_init (Ok [Ok ''a''])) (demo_pipe Waiting [Ok ''a''] [] [] False)"
    using intro(1) [OF task_step.connected, of "prod_init (Ok [Ok ''a''])" "[Ok ''a'']"]
    by (simp add: prod_init_def demo_pipe_def)
  have 2: "live_step (demo_pipe Waiting [Ok ''a''] [] [] False) (demo_pipe (Sending (Ok ''a'')) [] [] [] False)"
    using intro(1) [OF task_step.chunk, of "demo_pipe Waiting [Ok ''a''] [] [] False" "''a''" "[]"]
    by (simp add: demo_pipe_def)
  have 3: "live_step (demo_pipe (Sending (Ok ''a'')) [] [] [] False) (demo_pipe Waiting [] [Ok ''a''] [] False)"
    using intro(1) [OF task_step.sent, of "demo_pipe (Sending (Ok ''a'')) [] [] [] False" "Ok ''a''"]
    by (simp add: demo_pipe_def chan_capacity_def)
  have 4: "live_step (demo_pipe Waiting [] [Ok ''a''] [] False) (demo_pipe Finished [] [Ok ''a''] [] False)"
    using intro(1) [OF task_step.eof, of "demo_pipe Waiting [] [Ok ''a''] [] False"]
    by (simp add: demo_pipe_def)
  have 5: "live_step (demo_pipe Finished [] [Ok ''a''] [] False) (demo_pipe Finished [] [] [Ok ''a''] False)"
    using intro(2) [OF recv_step.item, of "demo_pipe Finished [] [Ok ''a''] [] False" "Ok ''a''" "[]"]
    by (simp add: demo_pipe_def)
  have 6: "live_step (demo_pipe Finished [] [] [Ok ''a''] False) (demo_pipe Finished [] [] [Ok ''a''] True)"
    using intro(2) [OF recv_step.closed, of "demo_pipe Finished [] [] [Ok ''a''] False"]
    by (simp add: demo_pipe_def)
  have "(live_step ^^ 0) (prod_init (Ok [Ok ''a''])) (prod_init (Ok [Ok ''a'']))" by simp
  from this 1 have "(live_step ^^ Suc 0) (prod_init (Ok [Ok ''a''])) (demo_pipe Waiting [Ok ''a''] [] [] False)"
    by (rule relpowp_Suc_I)
  from relpowp_Suc_I [OF this 2] have "(live_step ^^ Suc (Suc (Suc 0))) (prod_init (Ok [Ok ''a'']))
      (demo_pipe Waiting [] [Ok ''a''] [] False)"
    using 3 by (rule relpowp_Suc_I)
  from relpowp_Suc_I [OF this 4] have "(live_step ^^ Suc (Suc (Suc (Suc (Suc 0))))) (prod_init (Ok [Ok ''a'']))
      (demo_pipe Finished [] [] [Ok ''a''] False)"
    using 5 by (rule relpowp_Suc_I)
  from this 6 have "(live_step ^^ Suc (Suc (Suc (Suc (Suc (Suc 0)))))) (prod_init (Ok [Ok ''a'']))
      (demo_pipe Finished [] [] [Ok ''a''] True)"
    by (rule relpowp_Suc_I)
  then show ?thesis by (simp add: numeral_eq_Suc)
qed

lemma demo_pipe_end: "\<nexists>s'. live_step (demo_pipe Finished [] [] [Ok ''a''] True) s'"
  by (auto elim!: live_step.cases task_step.cases recv_step.cases simp: demo_pipe_def)

definition demo_cache :: "(string \<times> string \<times> nat \<times> nat) list \<Rightarrow> (string, string) cache_sys" where
  "demo_cache sv =
     \<lparr>sc = cache_insert (cache_new 5) ''k'' ''v'' 0, pcs = (\<lambda>_. Idle), clock = 0, served = sv,
      written = [(''k'', ''v'', 0)]\<rparr>"

lemma demo_cache_reach: "cache_reach 5 (demo_cache [(''k'', ''v'', 0, 0)])"
proof -
  let ?s0 = "cache_sys_init 5 :: (string, string) cache_sys"
  have "cache_sys_step ?s0 (demo_cache [])"
    using cache_sys_step.ins [of ?s0 0 "''k''" "''v''"] by (simp add: cache_sys_init_def demo_cache_def)
  then have "cache_reach 5 (demo_cache [])"
    by (rule cache_reach.step [OF cache_reach.start])
  moreover have "cache_sys_step (demo_cache []) (demo_cache [(''k'', ''v'', 0, 0)])"
    using cache_sys_step.hit [of "demo_cache []" 0 "''k''" "''v''" 0]
    by (simp add: demo_cache_def cache_new_def cache_insert_def elapsed_def)
  ultimately show ?thesis by (rule cache_reach.step)
qed

lemma demo_count: "inode_count (inodes demo_new) = 1"
  by (simp add: inode_count_def demo_new_def clickfs_new_def inode_new_def fcard.rep_eq)

lemma demo_listing: "listing_length demo_env i demo_new 0 \<le> 3"
proof (cases "i = 1")
  case True
  then show ?thesis
    by (simp add: listing_length_def demo_root demo_resolve_root dir_entries_def dots_def)
next
  case False
  then have "path_of demo_new i = Err NotFound"
    by (simp add: path_of_def inode_lookup_def demo_new_def clickfs_new_def inode_new_def INO_ROOT_def)
  then show ?thesis by (simp add: listing_length_def)
qed

section \<open>A server that fails\<close>

text \<open>Every request is answered with status 404, an exception in the body and the header given.\<close>

definition demo_failure :: "string option \<Rightarrow> http_response" where
  "demo_failure hdr =
     \<lparr>rs_status = 404, rs_success = False, rs_header = (\<lambda>_. hdr), rs_text = Ok (exception_text 60 ''no''),
      rs_chunks = []\<rparr>"

definition demo_failing :: "string option \<Rightarrow> nat env" where
  "demo_failing hdr = demo_env\<lparr>env_send := (\<lambda>rq w. (Ok (demo_failure hdr), w + 1))\<rparr>"

lemma demo_failing_send: "env_send (demo_failing hdr) rq 0 = (Ok (demo_failure hdr), 1)"
  by (simp add: demo_failing_def)

lemma demo_failure_simps [simp]:
  "\<not> rs_success (demo_failure hdr)" "rs_text (demo_failure hdr) = Ok (exception_text 60 ''no'')"
  "rs_header (demo_failure hdr) n = hdr"
  by (simp_all add: demo_failure_def)

section \<open>A host for the command line\<close>

definition demo_host :: "(nat, unit, unit) host" where
  "demo_host =
     \<lparr>h_linux = True, h_parse_url = Ok, h_is_dir = (\<lambda>_. True), h_read_file = (\<lambda>_. Ok []),
      h_runtime = Ok (), h_from_pem = (\<lambda>_. Ok []), h_build = (\<lambda>_. Ok ()), h_signals = True,
      h_command = (\<lambda>_ _ w. (Exited 0, w)), h_uid = 0, h_gid = 0,
      h_mount = (\<lambda>_ _ _ w. (Ok (), w + 10))\<rparr>"

definition demo_args :: mount_args where
  "demo_args = mount_defaults ''http://h/'' ''/m''"

end
