(* ===== verification/HumanBytes.thy ===== *)
theory HumanBytes
  imports Readme Complex_Main
begin

text \<open>
  \<open>human_bytes\<close> of \<open>src/readme.rs\<close> against exact arithmetic: below \<open>2 ^ 53\<close> none of its floating-point
  operations rounds, so that the unit and the two decimals are those of the exact quotient.
\<close>

section \<open>Exact floating-point results\<close>

lemma powi_nat: "0 \<le> e \<Longrightarrow> (2 :: real) powi e = 2 ^ nat e"
  by (simp add: power_int_def)

lemma powi_neg: "e < 0 \<Longrightarrow> (2 :: real) powi e = 1 / 2 ^ nat (- e)"
  by (simp add: power_int_def power_one_over inverse_eq_divide)

lemma bit_len_bounds:
  "0 < n \<Longrightarrow> 1 \<le> bit_len n \<and> 2 ^ nat (bit_len n - 1) \<le> n \<and> n < 2 ^ nat (bit_len n)"
proof (induction n rule: bit_len.induct)
  case (1 n)
  show ?case
  proof (cases "n = 1")
    case True
    then show ?thesis by (simp add: bit_len.simps [of 1] bit_len.simps [of 0])
  next
    case False
    with "1.prems" have h: "0 < n div 2" by simp
    let ?k = "bit_len (n div 2)"
    have IH: "1 \<le> ?k" "2 ^ nat (?k - 1) \<le> n div 2" "n div 2 < 2 ^ nat ?k"
      using "1.IH" "1.prems" h by auto
    have len: "bit_len n = ?k + 1" using "1.prems" by (simp add: bit_len.simps [of n])
    have pow: "(2 :: int) ^ nat ?k = 2 * 2 ^ nat (?k - 1)" "(2 :: int) ^ nat (?k + 1) = 2 * 2 ^ nat ?k"
      using IH(1) by (simp_all add: nat_add_distrib flip: power_Suc)
    have "2 * (n div 2) \<le> n" and "n < 2 * (n div 2) + 2" by linarith+
    with IH pow len show ?thesis by simp
  qed
qed

lemma bit_len_real:
  assumes "0 < n"
  shows "(2 :: real) powi (bit_len n - 1) \<le> of_int n \<and> of_int n < (2 :: real) powi (bit_len n)"
proof -
  note b = bit_len_bounds [OF assms]
  have "real_of_int (2 ^ nat (bit_len n - 1)) \<le> of_int n" and "of_int n < real_of_int (2 ^ nat (bit_len n))"
    using b by (simp_all only: of_int_le_iff of_int_less_iff)
  with b show ?thesis by (simp add: powi_nat)
qed

definition f64_value :: "f64 \<Rightarrow> real" where
  "f64_value x = of_int (fst x) / of_int (snd x)"

lemma scaled_div_value:
  assumes "0 < n" and "0 < d" and "scaled_div n d e = (a, b)"
  shows "0 < a \<and> 0 < b \<and> real_of_int a / of_int b = of_int n / of_int d / 2 powi e"
  using assms
  by (cases "0 \<le> e") (auto simp: scaled_div_def powi_nat powi_neg)

lemma round_div_exact: "0 < d \<Longrightarrow> n = q * d \<Longrightarrow> round_div n d = q"
  by (simp add: round_div_def)

text \<open>A quotient that has 53 significant bits is its own rounding.\<close>

lemma f64_round_exact:
  assumes n: "0 < n" and d: "0 < d" and m: "0 < m" "m < 2 ^ 53"
    and v: "real_of_int n / of_int d = of_int m / 2 ^ k"
  shows "0 < snd (f64_round n d) \<and> f64_value (f64_round n d) = of_int n / of_int d"
proof -
  let ?v = "real_of_int n / of_int d"
  define e0 where "e0 = bit_len n - bit_len d - 53"
  define e where "e = (case scaled_div n d e0 of (a, b) \<Rightarrow> if 2 ^ 53 \<le> a div b then e0 + 1 else e0)"
  obtain a0 b0 where s0: "scaled_div n d e0 = (a0, b0)" by fastforce
  obtain a b where s: "scaled_div n d e = (a, b)" by fastforce
  note v0 = scaled_div_value [OF n d s0] and v1 = scaled_div_value [OF n d s]
  have pos: "0 < ?v" using n d by simp
  have lo0: "2 ^ 52 \<le> ?v / 2 powi e0"
  proof -
    have "(2 :: real) powi (bit_len n - 1) / 2 powi (bit_len d) \<le> ?v"
      using bit_len_real [OF n] bit_len_real [OF d] n d by (intro frac_le) auto
    moreover have "(2 :: real) powi (bit_len n - 1) / 2 powi (bit_len d) = 2 ^ 52 * 2 powi e0"
      by (simp add: e0_def power_int_diff)
    ultimately have "2 ^ 52 * 2 powi e0 \<le> ?v" by simp
    then show ?thesis by (subst pos_le_divide_eq) simp_all
  qed
  have lo: "2 ^ 52 \<le> ?v / 2 powi e"
  proof (cases "2 ^ 53 \<le> a0 div b0")
    case True
    then have "2 ^ 53 * b0 \<le> a0 div b0 * b0" using v0 by (intro mult_right_mono) simp_all
    also have "\<dots> \<le> a0" using v0 by (simp add: minus_mod_eq_div_mult [symmetric])
    finally have "real_of_int (2 ^ 53 * b0) \<le> of_int a0" by (simp only: of_int_le_iff)
    then have "2 ^ 53 \<le> real_of_int a0 / of_int b0" using v0 by (subst pos_le_divide_eq) simp_all
    with v0 have "2 ^ 53 \<le> ?v / 2 powi e0" by simp
    moreover have "2 ^ 52 \<le> y / 2" if "2 ^ 53 \<le> y" for y :: real using that by simp
    ultimately have "2 ^ 52 \<le> ?v / 2 powi e0 / 2" by blast
    also have "?v / 2 powi e0 / 2 = ?v / 2 powi (e0 + 1)" by (simp add: power_int_add)
    finally show ?thesis using True by (simp add: e_def s0)
  qed (use lo0 in \<open>simp add: e_def s0\<close>)
  have q: "?v / 2 powi e = of_int m / 2 powi (int k + e)"
    by (simp add: v power_int_add)
  with lo have "2 ^ 52 * (2 :: real) powi (int k + e) \<le> of_int m" by (simp add: pos_le_divide_eq)
  moreover have "real_of_int m < of_int (2 ^ 53)" using m(2) by (simp only: of_int_less_iff)
  ultimately have less: "(2 :: real) powi (int k + e) < 2" by simp
  have "int k + e \<le> 0"
  proof (rule ccontr)
    assume "\<not> int k + e \<le> 0"
    then have "(2 :: real) ^ 1 \<le> 2 ^ nat (int k + e)" by (intro power_increasing) simp_all
    with less \<open>\<not> int k + e \<le> 0\<close> show False by (simp add: powi_nat)
  qed
  then have quot: "?v / 2 powi e = of_int (m * 2 ^ nat (- (int k + e)))"
    unfolding q by (cases "int k + e = 0") (simp_all add: powi_neg)
  with v1 have "real_of_int a = of_int (m * 2 ^ nat (- (int k + e)) * b)"
    by (simp add: divide_eq_eq)
  then have "a = m * 2 ^ nat (- (int k + e)) * b" by (simp only: of_int_eq_iff)
  then have r: "round_div a b = m * 2 ^ nat (- (int k + e))" using v1 round_div_exact by simp
  let ?r = "round_div a b"
  have val: "of_int ?r * 2 powi e = ?v"
  proof -
    have "?v / 2 powi e * 2 powi e = ?v" by simp
    then show ?thesis unfolding quot r .
  qed
  have "f64_round n d = (if 0 \<le> e then (?r * 2 ^ nat e, 1) else (?r, 2 ^ nat (- e)))"
    unfolding f64_round_def Let_def e0_def [symmetric] e_def [symmetric] s prod.case ..
  with val show ?thesis
    by (cases "0 \<le> e") (simp_all add: f64_value_def powi_nat powi_neg)
qed

section \<open>The scale\<close>

text \<open>The exact reference: the largest unit that is not larger than the number, up to PiB.\<close>

definition unit_of :: "nat \<Rightarrow> nat" where
  "unit_of n = length (takeWhile (\<lambda>i. 1024 ^ i \<le> n) [1..<6])"

lemma f64_of_u64_exact:
  assumes "0 < unat n" and "unat n < 2 ^ 53"
  shows "0 < snd (f64_of_u64 n) \<and> f64_value (f64_of_u64 n) = real (unat n)"
proof -
  have u: "uint n = int (unat n)" by simp
  have "0 < uint n" using assms(1) u by linarith
  moreover have "int (unat n) < 2 ^ 53"
    using assms(2) by (metis of_nat_less_iff of_nat_numeral of_nat_power)
  ultimately show ?thesis
    using f64_round_exact [of "uint n" 1 "uint n" 0] unfolding f64_of_u64_def by simp
qed

lemma f64_div_1024_exact:
  assumes "0 < snd v" and "f64_value v = real n / 2 ^ k" and "0 < n" and "n < 2 ^ 53"
  shows "0 < snd (f64_div v (1024, 1)) \<and> f64_value (f64_div v (1024, 1)) = real n / 2 ^ (k + 10)"
proof -
  have "0 < f64_value v" using assms(2,3) by simp
  then have f: "0 < fst v" using assms(1) by (simp add: f64_value_def zero_less_divide_iff)
  have q: "real_of_int (fst v * 1) / of_int (snd v * 1024) = of_int (int n) / 2 ^ (k + 10)"
    using assms(2) by (simp add: f64_value_def power_add field_simps)
  have "int n < 2 ^ 53"
    using assms(4) by (metis of_nat_less_iff of_nat_numeral of_nat_power)
  from f64_round_exact [OF _ _ _ this q] f assms(1,3) q show ?thesis
    by (simp add: f64_div_def)
qed

lemma f64_ge_1024: "0 < snd v \<Longrightarrow> 1024 * snd v \<le> fst v \<longleftrightarrow> 1024 \<le> f64_value v"
  unfolding f64_value_def
  by (subst pos_le_divide_eq) (simp_all flip: of_int_le_iff [where 'a = real])

lemma unit_of_step:
  assumes "1024 ^ i \<le> n \<or> i = 0" and "i \<le> 5"
  shows "unit_of n = i \<longleftrightarrow> i = 5 \<or> n < 1024 ^ (i + 1)"
proof -
  have "(1024 :: nat) ^ 1 \<le> 1024 ^ 2" "(1024 :: nat) ^ 2 \<le> 1024 ^ 3" "(1024 :: nat) ^ 3 \<le> 1024 ^ 4"
    "(1024 :: nat) ^ 4 \<le> 1024 ^ 5" by simp_all
  moreover have "i = 0 \<or> i = 1 \<or> i = 2 \<or> i = 3 \<or> i = 4 \<or> i = 5" using assms(2) by linarith
  ultimately show ?thesis
    using assms(1) by (auto simp: unit_of_def upt_rec)
qed

text \<open>The loop: the value is the exact quotient at every step, and it ends at the unit of the reference.\<close>

lemma scale_bytes_exact:
  assumes "0 < snd v" and "f64_value v = real n / 1024 ^ i" and "1024 ^ i \<le> n" and "i \<le> 5"
    and "0 < n" and "n < 2 ^ 53"
  shows "\<exists>v'. scale_bytes v i = (v', unit_of n) \<and> 0 < snd v' \<and> f64_value v' = real n / 1024 ^ unit_of n"
  using assms(1-4)
proof (induction v i rule: scale_bytes.induct)
  case (1 v i)
  have len: "i + 1 < length byte_units \<longleftrightarrow> i < 5" by (simp add: byte_units_def) linarith
  have pow: "(1024 :: real) ^ i = 2 ^ (10 * i)" by (simp add: power_mult)
  have ge: "1024 * snd v \<le> fst v \<longleftrightarrow> 1024 ^ (i + 1) \<le> n"
  proof -
    have "1024 \<le> f64_value v \<longleftrightarrow> real (1024 ^ (i + 1)) \<le> real n"
      using "1.prems"(2) by (simp add: pos_le_divide_eq)
    then show ?thesis using f64_ge_1024 [OF "1.prems"(1)] by (simp only: of_nat_le_iff)
  qed
  show ?case
  proof (cases "1024 * snd v \<le> fst v \<and> i + 1 < length byte_units")
    case True
    have "f64_value v = real n / 2 ^ (10 * i)" using "1.prems"(2) pow by simp
    from f64_div_1024_exact [OF "1.prems"(1) this assms(5,6)]
    have "0 < snd (f64_div v (1024, 1))" and "f64_value (f64_div v (1024, 1)) = real n / 1024 ^ (i + 1)"
      by (simp_all add: power_add power_mult)
    with "1.IH" [OF True] True ge len show ?thesis by (simp add: scale_bytes.simps [of v i])
  next
    case False
    then have "unit_of n = i"
      using unit_of_step [of i n] "1.prems"(3,4) ge len by auto
    moreover have "scale_bytes v i = (v, i)" using False by (simp only: scale_bytes.simps [of v i] if_False)
    ultimately show ?thesis using "1.prems" by blast
  qed
qed

section \<open>The text\<close>

definition human_bytes_spec :: "nat \<Rightarrow> string" where
  "human_bytes_spec n =
     (let i = unit_of n; h = round_div (100 * int n) (1024 ^ i)
      in if i = 0 then show_nat n @ '' B''
         else show_nat (nat (h div 100)) @ ''.'' @ pad_left 2 (show_nat (nat (h mod 100))) @ '' '' @
              byte_units ! i)"

lemma round_div_value:
  assumes "0 < b" and "0 < d" and "a * d = c * b"
  shows "round_div a b = round_div c (d :: int)"
proof -
  have scale: "round_div (x * k) (y * k) = round_div x y" if "0 < k" "0 < y" for x y k :: int
  proof -
    have "(x * k) div (y * k) = x div y" and "(x * k) mod (y * k) = x mod y * k"
      using that by (simp_all add: mult_mod_left)
    moreover have "y * k < 2 * (x mod y * k) \<longleftrightarrow> y < 2 * (x mod y)"
      using that by (simp add: mult.assoc [symmetric])
    moreover have "2 * (x mod y * k) = y * k \<longleftrightarrow> 2 * (x mod y) = y"
      using that by (simp add: mult.assoc [symmetric])
    ultimately show ?thesis unfolding round_div_def Let_def by (simp only:)
  qed
  have "round_div a b = round_div (a * d) (b * d)" by (rule scale [OF assms(2,1), symmetric])
  also have "\<dots> = round_div (c * b) (d * b)" using assms(3) by (simp add: mult.commute)
  also have "\<dots> = round_div c d" by (rule scale [OF assms(1,2)])
  finally show ?thesis .
qed

lemma human_bytes_exact_text:
  assumes "unat n < 2 ^ 53"
  shows "human_bytes n = human_bytes_spec (unat n)"
proof (cases "unat n = 0")
  case True
  then have "n = 0" by (simp add: unat_eq_0)
  moreover have "human_bytes 0 = ''0 B''" by code_simp
  moreover have "human_bytes_spec 0 = ''0 B''" by code_simp
  ultimately show ?thesis by simp
next
  case False
  then obtain v where v: "scale_bytes (f64_of_u64 n) 0 = (v, unit_of (unat n))" "0 < snd v"
    "f64_value v = real (unat n) / 1024 ^ unit_of (unat n)"
    using scale_bytes_exact [of "f64_of_u64 n" "unat n" 0] f64_of_u64_exact [of n] assms by auto
  let ?i = "unit_of (unat n)"
  have "real_of_int (fst v * 1024 ^ ?i) = of_int (int (unat n) * snd v)"
    using v(2,3) by (simp add: f64_value_def frac_eq_eq)
  then have "fst v * 1024 ^ ?i = int (unat n) * snd v" by (simp only: of_int_eq_iff)
  then have "fst v * 10 ^ 2 * 1024 ^ ?i = (100 * int (unat n)) * snd v"
    by (simp add: mult.assoc mult.left_commute)
  then have "round_div (fst v * 10 ^ 2) (snd v) = round_div (100 * int (unat n)) (1024 ^ ?i)"
    by (intro round_div_value v(2)) simp_all
  then show ?thesis
    using v(1) by (simp add: human_bytes_def human_bytes_spec_def fmt_fixed_def Let_def)
      (simp add: byte_units_def)
qed

text \<open>The accuracy of the reference: at most half a hundredth of the unit, and the right unit.\<close>

lemma round_div_error:
  assumes "0 < d"
  shows "2 * \<bar>round_div n d * d - n\<bar> \<le> d"
proof -
  have n: "n = n div d * d + n mod d" and r: "0 \<le> n mod d" "n mod d < d"
    using assms by simp_all
  show ?thesis
  proof (cases "d < 2 * (n mod d) \<or> (2 * (n mod d) = d \<and> odd (n div d))")
    case True
    then have "round_div n d * d - n = d - n mod d"
      using n by (simp add: round_div_def Let_def algebra_simps)
    with True r show ?thesis by auto
  next
    case False
    then have "round_div n d = n div d" unfolding round_div_def Let_def by (simp only: if_False)
    then have "round_div n d * d - n = - (n mod d)" using n by (simp only: mult.commute)
    with False r show ?thesis by auto
  qed
qed

lemma unit_of_bounds:
  "(unit_of n = 0 \<or> 1024 ^ unit_of n \<le> n) \<and> (unit_of n = 5 \<or> n < 1024 ^ (unit_of n + 1))"
proof -
  let ?i = "if 1024 ^ 5 \<le> n then 5 else if 1024 ^ 4 \<le> n then 4 else if 1024 ^ 3 \<le> n then 3
    else if 1024 ^ 2 \<le> n then 2 else if 1024 \<le> n then 1 else (0 :: nat)"
  have "unit_of n = ?i \<longleftrightarrow> ?i = 5 \<or> n < 1024 ^ (?i + 1)" by (rule unit_of_step) auto
  then have "unit_of n = ?i" by auto
  then show ?thesis by auto
qed

text \<open>The unit is chosen before rounding, so that a number just below a unit shows as 1024.00.\<close>

lemma human_bytes_before_mebibyte: "human_bytes 1048575 = ''1024.00 KiB''"
proof -
  have "unit_of 1048575 = 1" using unit_of_step [of 1 1048575] by simp
  moreover have "show_nat 1024 = ''1024''" "show_nat 0 = ''0''" by code_simp+
  ultimately have "human_bytes_spec 1048575 = ''1024.00 KiB''"
    by (simp add: human_bytes_spec_def round_div_def pad_left_def byte_units_def)
  then show ?thesis using human_bytes_exact_text [of 1048575] by simp
qed

end
