(* ===== verification/ReadmeProps.thy ===== *)
theory ReadmeProps
  imports FsProps
begin

text \<open>
  The README of a table is best effort (\<open>src/readme.rs\<close>): whatever the server answers or refuses, the
  same five requests are sent, opening succeeds, and the document has all its sections; a section
  whose query failed says so, and no failure changes another section.
\<close>

definition readme_headings :: "string list" where
  "readme_headings =
     map (\<lambda>s. ''## '' @ s @ [NL, NL])
       [''Stats'', ''Schema'', ''Columns'', ''Sample (5 rows)'', ''Example queries'', ''Files'']"

definition readme_statements :: "string \<Rightarrow> string \<Rightarrow> string list" where
  "readme_statements d t = [sql_describe d t, sql_stats d t, sql_columns d t, sql_count d t, sql_sample d t]"

lemma sublist_concat: "sublist h p \<Longrightarrow> p \<in> set ps \<Longrightarrow> sublist h (concat ps)"
proof (induction ps)
  case (Cons q ps)
  then show ?case
    by (cases "p = q") (auto intro: sublist_order.order_trans [OF _ sublist_append_rightI]
        sublist_order.order_trans [OF _ sublist_append_leftI])
qed simp

lemma section_heading: "sublist (''## '' @ s @ [NL, NL]) (md_section s body)"
  unfolding md_section_def using sublist_append_rightI [of "''## '' @ s @ [NL, NL]" "body @ [NL]"] by simp

lemma readme_has_headings:
  "list_all (\<lambda>h. sublist h (readme_text j d t schema stats columns count sample)) readme_headings"
proof -
  have files: "sublist (''## '' @ ''Files'' @ [NL, NL]) files_section"
    unfolding files_section_def
    using sublist_append_rightI [of "''## '' @ ''Files'' @ [NL, NL]"] by simp
  have doc: "readme_text j d t schema stats columns count sample = concat
      [''# `'' @ d @ ''`.`'' @ t @ ''`'' @ [NL, NL], md_section ''Stats'' (stats_body j stats count),
       md_section ''Schema'' (schema_body schema), md_section ''Columns'' (columns_body j columns),
       md_section ''Sample (5 rows)'' (sample_body sample),
       md_section ''Example queries'' (examples_body d t), files_section]" (is "_ = concat ?ps")
    by (simp add: readme_text_def)
  have "list_all (\<lambda>h. \<exists>p \<in> set ?ps. sublist h p) readme_headings"
    unfolding readme_headings_def list.map list.pred_inject
    using section_heading files by (intro conjI) (meson list.set_intros | simp)+
  then show ?thesis
    unfolding doc by (rule list.pred_mono_strong) (blast intro: sublist_concat)
qed

lemma query_text_logged:
  "\<exists>r w'. query_text (env_logged e) drv sql (w, l) = (r, w', l @ [text_request drv sql])"
  by (cases "env_send e (text_request drv sql) w")
    (auto simp: query_text_def env_logged_def split: sum.splits)

lemma render_logged:
  "\<exists>doc w'. render (env_logged e) j drv d t (w, l) = (doc, w', l @ map (text_request drv) (readme_statements d t))
     \<and> list_all (\<lambda>h. sublist h doc) readme_headings"
proof -
  let ?q = "\<lambda>sql w l. query_text (env_logged e) drv sql (w, l)"
  obtain r1 w1 where 1: "?q (sql_describe d t) w l = (r1, w1, l @ [text_request drv (sql_describe d t)])"
    using query_text_logged by metis
  let ?l1 = "l @ [text_request drv (sql_describe d t)]"
  obtain r2 w2 where 2: "?q (sql_stats d t) w1 ?l1 = (r2, w2, ?l1 @ [text_request drv (sql_stats d t)])"
    using query_text_logged by metis
  let ?l2 = "?l1 @ [text_request drv (sql_stats d t)]"
  obtain r3 w3 where 3: "?q (sql_columns d t) w2 ?l2 = (r3, w3, ?l2 @ [text_request drv (sql_columns d t)])"
    using query_text_logged by metis
  let ?l3 = "?l2 @ [text_request drv (sql_columns d t)]"
  obtain r4 w4 where 4: "?q (sql_count d t) w3 ?l3 = (r4, w4, ?l3 @ [text_request drv (sql_count d t)])"
    using query_text_logged by metis
  let ?l4 = "?l3 @ [text_request drv (sql_count d t)]"
  obtain r5 w5 where 5: "?q (sql_sample d t) w4 ?l4 = (r5, w5, ?l4 @ [text_request drv (sql_sample d t)])"
    using query_text_logged by metis
  have "render (env_logged e) j drv d t (w, l) =
      (readme_text j d t r1 r2 r3 r4 r5, w5, l @ map (text_request drv) (readme_statements d t))"
    unfolding render_def 1 prod.case 2 3 4 5 by (simp add: readme_statements_def)
  then show ?thesis using readme_has_headings by blast
qed

lemma open_readme:
  assumes acc: "and flags O_ACCMODE = O_RDONLY" and "path_of fs i = Ok path"
    and "resolve path = Ok p" and "p_kind p = Readme"
  shows "\<exists>doc fs' w'. fs_open \<lparr>x_env = env_logged e, x_json = j, x_hash = h\<rparr> i flags fs (w, l) =
      (Ok (fh_counter fs), fs', w', l @ map (text_request (f_driver fs))
         (readme_statements (the (p_db p)) (the (p_table p))))
    \<and> fmlookup (handles fs') (fh_counter fs) = Some (HSpecial doc)
    \<and> list_all (\<lambda>h. sublist h doc) readme_headings"
proof -
  obtain doc w' where r: "render (env_logged e) j (f_driver fs) (the (p_db p)) (the (p_table p)) (w, l) =
      (doc, w', l @ map (text_request (f_driver fs)) (readme_statements (the (p_db p)) (the (p_table p))))"
    and hd: "list_all (\<lambda>h. sublist h doc) readme_headings"
    using render_logged [of e j "f_driver fs" "the (p_db p)" "the (p_table p)" w l] by blast
  then show ?thesis
    using assms by (auto simp: fs_open_def open_handle_def Let_def)
qed

end
