(* ===== verification/UnitTests.thy ===== *)
theory UnitTests
  imports Fs
begin

text \<open>
  The unit tests of the repository, run on the model: one definition for each test function of the
  \<open>tests\<close> modules under \<open>src/src\<close>, the conjunction of its assertions over the model's definitions, and
  a lemma that it holds.  \<open>unwrap\<close> is the case of success.  What a test takes from outside the
  repository (the HTTP client's construction) is a parameter; sleeping is the difference of two
  times.  Here are the tests of \<open>error.rs\<close>, \<open>cache.rs\<close>, \<open>inode.rs\<close>, \<open>resolver.rs\<close> and \<open>driver.rs\<close>;
  \<open>HandleTests\<close> has the others.  Two tests are not here: the one of \<open>cache.rs\<close> that starts threads, and
  \<open>driver_new_rejects_garbage_ca_bundle\<close>, which asserts nothing.
\<close>

definition str_contains :: "string \<Rightarrow> string \<Rightarrow> bool" where
  "str_contains s pat \<longleftrightarrow> str_find pat s \<noteq> None"

abbreviation is_err :: "'e + 'a \<Rightarrow> bool" where "is_err \<equiv> isl"
abbreviation is_ok :: "'e + 'a \<Rightarrow> bool" where "is_ok r \<equiv> \<not> isl r"
abbreviation unwrap :: "'e + 'a \<Rightarrow> 'a" where "unwrap \<equiv> projr"

section \<open>\<open>error.rs\<close>\<close>

definition test_parse_from_header :: bool where
  "test_parse_from_header \<longleftrightarrow>
     (case parse_clickhouse_error (Some ''60'') ''Code: 60. DB::Exception: Table foo doesn't exist.'' of
        None \<Rightarrow> False
      | Some got \<Rightarrow> fst got = 60 \<and> (str_contains (snd got) ''DB::Exception'' \<or> str_contains (snd got) ''doesn't exist''))"

definition test_parse_from_body_only :: bool where
  "test_parse_from_body_only \<longleftrightarrow>
     (case parse_clickhouse_error None
        (''Code: 81. DB::Exception: Database `nope` doesn't exist. '' @
         ''(UNKNOWN_DATABASE) (version 25.3.2.39 (official build))'') of
        None \<Rightarrow> False
      | Some got \<Rightarrow> fst got = 81 \<and> str_contains (snd got) ''doesn't exist'' \<and> \<not> str_contains (snd got) ''(version'')"

definition test_parse_unknown_code :: bool where
  "test_parse_unknown_code \<longleftrightarrow>
     (case parse_clickhouse_error None ''Code: 99999. DB::Exception: weird'' of
        None \<Rightarrow> False
      | Some (code, _) \<Rightarrow> code = 99999)
   \<and> clickhouse_code_name 99999 = ''UNKNOWN'' \<and> clickhouse_code_to_errno 99999 = EIO"

definition test_parse_header_precedence :: bool where
  "test_parse_header_precedence \<longleftrightarrow>
     map_option fst (parse_clickhouse_error (Some ''192'') ''Code: 60. DB::Exception: ignored'') = Some 192"

definition test_parse_returns_none_on_empty :: bool where
  "test_parse_returns_none_on_empty \<longleftrightarrow>
     parse_clickhouse_error None '''' = None
   \<and> parse_clickhouse_error None ''garbage with no marker'' = None
   \<and> parse_clickhouse_error (Some ''not-a-number'') '''' = None"

definition test_errno_mapping_table :: bool where
  "test_errno_mapping_table \<longleftrightarrow>
     clickhouse_code_to_errno 60 = ENOENT \<and> clickhouse_code_to_errno 81 = ENOENT
   \<and> clickhouse_code_to_errno 192 = EACCES \<and> clickhouse_code_to_errno 194 = EACCES
   \<and> clickhouse_code_to_errno 164 = EROFS \<and> clickhouse_code_to_errno 159 = ETIMEDOUT
   \<and> clickhouse_code_to_errno 202 = EAGAIN \<and> clickhouse_code_to_errno 241 = ENOMEM
   \<and> clickhouse_code_to_errno 394 = ECANCELED"

lemma shown_numbers:
  "show_nat 60 = ''60''" "show_nat 192 = ''192''" "show_nat 81 = ''81''" "show_nat 99999 = ''99999''"
proof -
  have "digit_char 9 = CHR ''9''" by code_simp
  then show "show_nat 99999 = ''99999''" by (simp add: show_nat.simps)
qed code_simp+

lemma header_numbers: "parse_i32 (str_trim ''60'') = Some 60" "parse_i32 (str_trim ''192'') = Some 192"
proof -
  have "str_trim ''60'' = ''60''" "str_trim ''192'' = ''192''" by code_simp+
  then show "parse_i32 (str_trim ''60'') = Some 60" "parse_i32 (str_trim ''192'') = Some 192"
    using parse_i32_show_nat [of 60] parse_i32_show_nat [of 192] by (simp_all add: shown_numbers)
qed

lemma error_test_header: "test_parse_from_header" "test_parse_header_precedence"
proof -
  have "clean_message ''Code: 60. DB::Exception: Table foo doesn't exist.'' =
      ''Code: 60. DB::Exception: Table foo doesn't exist''" by code_simp
  moreover have "str_contains ''Code: 60. DB::Exception: Table foo doesn't exist'' ''DB::Exception''"
    by code_simp
  ultimately show "test_parse_from_header"
    unfolding test_parse_from_header_def parse_clickhouse_error_header [OF header_numbers(1)] by simp
  show "test_parse_header_precedence"
    unfolding test_parse_header_precedence_def parse_clickhouse_error_header [OF header_numbers(2)] by simp
qed

lemma error_test_body: "test_parse_from_body_only" "test_parse_unknown_code"
proof -
  let ?msg = "'' Database `nope` doesn't exist. (UNKNOWN_DATABASE) (version 25.3.2.39 (official build))''"
  have body1: "''Code: 81. DB::Exception: Database `nope` doesn't exist. '' @
      ''(UNKNOWN_DATABASE) (version 25.3.2.39 (official build))'' = exception_text 81 (tl ?msg)"
    by (simp add: exception_text_def shown_numbers)
  have "clean_message (tl ?msg) = ''Database `nope` doesn't exist. (UNKNOWN_DATABASE)''" by code_simp
  moreover have "str_contains ''Database `nope` doesn't exist. (UNKNOWN_DATABASE)'' ''doesn't exist''"
    "\<not> str_contains ''Database `nope` doesn't exist. (UNKNOWN_DATABASE)'' ''(version''" by code_simp+
  moreover have "parse_clickhouse_error None (exception_text 81 (tl ?msg)) = Some (81, clean_message (tl ?msg))"
    using parse_clickhouse_error_body [of 81 None] by simp
  ultimately show "test_parse_from_body_only"
    unfolding test_parse_from_body_only_def body1 by simp
  have body2: "''Code: 99999. DB::Exception: weird'' = exception_text 99999 ''weird''"
    by (simp add: exception_text_def shown_numbers)
  have "parse_clickhouse_error None (exception_text 99999 ''weird'') = Some (99999, clean_message ''weird'')"
    using parse_clickhouse_error_body [of 99999 None] by simp
  then show "test_parse_unknown_code"
    unfolding test_parse_unknown_code_def body2
    by (simp add: clickhouse_code_name_def clickhouse_code_to_errno_def)
qed

lemma error_tests: "test_parse_returns_none_on_empty" "test_errno_mapping_table"
  by code_simp+

section \<open>\<open>cache.rs\<close>\<close>

text \<open>Times are in nanoseconds; a test starts at any time \<open>t\<close>.\<close>

definition test_hit_within_ttl :: "nat \<Rightarrow> bool" where
  "test_hit_within_ttl t \<longleftrightarrow>
     (let c = cache_insert (cache_new (60 * 10 ^ 9)) ''k'' (7 :: u32) t;
          (r, c') = cache_get c ''k'' t
      in r = Some 7 \<and> cache_len c' = 1)"

definition test_miss_after_ttl :: "nat \<Rightarrow> bool" where
  "test_miss_after_ttl t \<longleftrightarrow>
     (let c = cache_insert (cache_new (50 * 10 ^ 6)) ''k'' (7 :: u32) t;
          (r, c') = cache_get c ''k'' (t + 200 * 10 ^ 6)
      in r = None \<and> cache_len c' = 0)"

definition test_refresh_resets_timer :: "nat \<Rightarrow> bool" where
  "test_refresh_resets_timer t \<longleftrightarrow>
     (let c = cache_insert (cache_new (500 * 10 ^ 6)) ''k'' (1 :: u32) t;
          c = cache_insert c ''k'' 2 (t + 100 * 10 ^ 6)
      in fst (cache_get c ''k'' (t + 200 * 10 ^ 6)) = Some 2)"

definition test_tuple_keys_work :: "nat \<Rightarrow> bool" where
  "test_tuple_keys_work t \<longleftrightarrow>
     (let c = cache_insert (cache_new (60 * 10 ^ 9)) (''db'', ''tbl'') [''p1'', ''p2''] t
      in fst (cache_get c (''db'', ''tbl'') t) = Some [''p1'', ''p2''])"

lemma cache_tests:
  "test_hit_within_ttl t" "test_miss_after_ttl t" "test_refresh_resets_timer t" "test_tuple_keys_work t"
  by (simp_all add: test_hit_within_ttl_def test_miss_after_ttl_def test_refresh_resets_timer_def
      test_tuple_keys_work_def cache_new_def cache_insert_def cache_get_def cache_len_def elapsed_def
      fcard.rep_eq Let_def)

section \<open>\<open>inode.rs\<close>\<close>

definition test_root_pinned :: bool where
  "test_root_pinned \<longleftrightarrow> inode_lookup inode_new INO_ROOT = Some ''/''"

definition test_allocate_stable :: "(component list \<Rightarrow> u64) \<Rightarrow> bool" where
  "test_allocate_stable h \<longleftrightarrow>
     (case inode_allocate h ''/db/foo'' inode_new of
        None \<Rightarrow> False
      | Some (a, t) \<Rightarrow>
         (case inode_allocate h ''/db/foo'' t of None \<Rightarrow> False | Some (b, _) \<Rightarrow> a = b \<and> 1 < a))"

definition test_distinct_paths :: "(component list \<Rightarrow> u64) \<Rightarrow> bool" where
  "test_distinct_paths h \<longleftrightarrow>
     (case inode_allocate h ''/db/foo'' inode_new of
        None \<Rightarrow> False
      | Some (a, t) \<Rightarrow>
         (case inode_allocate h ''/db/bar'' t of None \<Rightarrow> False | Some (b, _) \<Rightarrow> a \<noteq> b))"

lemma demo_paths:
  "components ''/db/foo'' = [RootDir, Normal ''db'', Normal ''foo'']"
  "components ''/db/bar'' = [RootDir, Normal ''db'', Normal ''bar'']"
  by code_simp+

lemma first_allocation:
  "\<exists>a t. inode_allocate h ''/db/foo'' inode_new = Some (a, t) \<and> 1 < a \<and> inode_wf t \<and> inode_count t < 2 ^ 64"
proof -
  let ?a = "max (inode_hash h ''/db/foo'') 100"
  have "(100 :: u64) \<le> ?a" by simp
  then have "1 < ?a" by (rule order_less_le_trans [rotated]) simp
  then have "?a \<noteq> INO_ROOT" by (auto simp: INO_ROOT_def)
  have probe: "\<exists>t. probe p k inode_new = Some (k, t)" if "k \<noteq> INO_ROOT" for p k
    by (subst probe.simps) (use that in \<open>simp add: inode_new_def\<close>)
  obtain t where "probe ''/db/foo'' ?a inode_new = Some (?a, t)" using probe [OF \<open>?a \<noteq> INO_ROOT\<close>] by blast
  then have t: "inode_allocate h ''/db/foo'' inode_new = Some (?a, t)"
    by (simp add: inode_allocate_def demo_paths) (simp add: inode_new_def)
  have "inode_count inode_new = 1" by (simp add: inode_count_def inode_new_def fcard.rep_eq)
  then have "inode_count t < 2 ^ 64" using inode_allocate_count [OF inode_new_wf t] by simp
  with t \<open>1 < ?a\<close> inode_allocate_wf [OF inode_new_wf t] show ?thesis by blast
qed

lemma inode_tests: "test_root_pinned" "test_allocate_stable h" "test_distinct_paths h"
proof -
  show "test_root_pinned" by (simp add: test_root_pinned_def inode_lookup_def inode_new_def)
  obtain a t where a: "inode_allocate h ''/db/foo'' inode_new = Some (a, t)" "1 < a" "inode_wf t"
    "inode_count t < 2 ^ 64"
    using first_allocation by blast
  show "test_allocate_stable h"
    using a(1,2) ino.alloc_again [OF inode_new_wf a(1)] by (auto simp: test_allocate_stable_def path_eq_def)
  obtain b t' where b: "inode_allocate h ''/db/bar'' t = Some (b, t')"
    using inode_allocate_returns [OF a(3,4)] by fastforce
  have "a \<noteq> b"
    using ino.alloc_distinct [OF inode_new_wf a(1) b] by (simp add: path_eq_def demo_paths)
  with a b show "test_distinct_paths h" by (simp add: test_distinct_paths_def)
qed

section \<open>\<open>resolver.rs\<close>\<close>

definition test_root :: bool where
  "test_root \<longleftrightarrow> p_kind (unwrap (resolve ''/'')) = Root"

definition test_db_ns :: bool where
  "test_db_ns \<longleftrightarrow> p_kind (unwrap (resolve ''/db'')) = DbNamespace"

definition test_list_tables :: bool where
  "test_list_tables \<longleftrightarrow>
     (let p = unwrap (resolve ''/db/default'') in p_kind p = ListTables \<and> p_db p = Some ''default'')"

definition test_schema_file :: bool where
  "test_schema_file \<longleftrightarrow> p_kind (unwrap (resolve ''/db/default/users/.schema'')) = DescribeTable"

definition test_all_tsv :: bool where
  "test_all_tsv \<longleftrightarrow> p_kind (unwrap (resolve ''/db/default/users/all.tsv'')) = StreamAll"

definition test_partition_tsv :: bool where
  "test_partition_tsv \<longleftrightarrow>
     p_kind (unwrap (resolve ''/db/default/users/202601.tsv'')) = StreamPartition ''202601''"

definition test_reject_parent :: bool where
  "test_reject_parent \<longleftrightarrow> is_err (resolve ''/db/../etc'')"

definition test_reject_bad_id :: bool where
  "test_reject_bad_id \<longleftrightarrow> is_err (resolve ''/db/foo;bar'')"

definition test_readme_md :: bool where
  "test_readme_md \<longleftrightarrow>
     (let p = unwrap (resolve ''/db/default/users/README.md'')
      in p_kind p = Readme \<and> p_db p = Some ''default'' \<and> p_table p = Some ''users'')"

lemma resolver_tests:
  "test_root" "test_db_ns" "test_list_tables" "test_schema_file" "test_all_tsv" "test_partition_tsv"
  "test_reject_parent" "test_reject_bad_id" "test_readme_md"
  by code_simp+

section \<open>\<open>driver.rs\<close>\<close>

definition test_tls_default_is_valid :: bool where
  "test_tls_default_is_valid \<longleftrightarrow> is_ok (tls_validate tls_default)"

definition test_tls_insecure_only :: bool where
  "test_tls_insecure_only \<longleftrightarrow> is_ok (tls_validate \<lparr>insecure = True, ca_bundle_pem = None\<rparr>)"

definition test_tls_ca_bundle_only :: bool where
  "test_tls_ca_bundle_only \<longleftrightarrow>
     is_ok (tls_validate \<lparr>insecure = False, ca_bundle_pem = Some ''-----BEGIN CERTIFICATE-----''\<rparr>)"

definition test_tls_conflict :: bool where
  "test_tls_conflict \<longleftrightarrow>
     (case tls_validate \<lparr>insecure = True, ca_bundle_pem = Some ''x''\<rparr> of
        Inl err \<Rightarrow> str_contains err ''mutually exclusive''
      | Inr _ \<Rightarrow> False)"

definition test_driver ::
  "(bytes \<Rightarrow> string + 'cert list) \<Rightarrow> ('cert client_options \<Rightarrow> string + 'client) \<Rightarrow> tls_config \<Rightarrow> bool \<Rightarrow>
   clickfs_error + 'client http_driver" where
  "test_driver from_pem build cfg compress =
     driver_new from_pem build ''http://localhost:8123/'' ''u'' ''p'' 60 1024 cfg \<lparr>comp_enabled = compress\<rparr>"

definition test_driver_new_rejects_conflict ::
  "(bytes \<Rightarrow> string + 'cert list) \<Rightarrow> ('cert client_options \<Rightarrow> string + 'client) \<Rightarrow> bool" where
  "test_driver_new_rejects_conflict from_pem build \<longleftrightarrow>
     is_err (test_driver from_pem build \<lparr>insecure = True, ca_bundle_pem = Some ''x''\<rparr>
       (comp_enabled compression_default))"

definition test_compression_default :: bool where
  "test_compression_default \<longleftrightarrow> comp_enabled compression_default"

definition test_compression_enabled :: "('cert client_options \<Rightarrow> string + 'client) \<Rightarrow> bool" where
  "test_compression_enabled build \<longleftrightarrow>
     (let d = unwrap (test_driver (\<lambda>_. Ok []) build tls_default True)
      in str_contains (append_settings d ''SELECT 1'' False) ''enable_http_compression=1'')"

definition test_compression_disabled :: "('cert client_options \<Rightarrow> string + 'client) \<Rightarrow> bool" where
  "test_compression_disabled build \<longleftrightarrow>
     (let d = unwrap (test_driver (\<lambda>_. Ok []) build tls_default False)
      in \<not> str_contains (append_settings d ''SELECT 1'' True) ''enable_http_compression'')"

definition test_sql_table_pk :: bool where
  "test_sql_table_pk \<longleftrightarrow>
     (let s = sql_table_pk ''d'' ''t''
      in str_contains s ''system.tables'' \<and> str_contains s ''primary_key'' \<and> str_contains s ''sorting_key''
       \<and> str_contains s (SQUOTE # ''d'' @ [SQUOTE]) \<and> str_contains s (SQUOTE # ''t'' @ [SQUOTE])
       \<and> suffix ''FORMAT JSONEachRow'' s)"

definition test_sql_select_tail_quotes :: bool where
  "test_sql_select_tail_quotes \<longleftrightarrow>
     (let s = sql_select_tail ''my db'' ''my tbl'' ''id'' None 10
      in str_contains s ''`my db`.`my tbl`'' \<and> str_contains s ''ORDER BY id DESC'' \<and> str_contains s ''LIMIT 10''
       \<and> \<not> str_contains s ''WHERE'' \<and> suffix ''FORMAT TabSeparatedWithNames'' s)"

definition test_sql_select_tail_tuple :: bool where
  "test_sql_select_tail_tuple \<longleftrightarrow>
     str_contains (sql_select_tail ''d'' ''t'' ''tuple()'' None 5) ''ORDER BY tuple() DESC''"

definition test_sql_select_tail_per_column :: bool where
  "test_sql_select_tail_per_column \<longleftrightarrow>
     (let s = sql_select_tail ''d'' ''t'' ''a, b, c'' None 7
      in str_contains s ''ORDER BY a DESC, b DESC, c DESC'' \<and> str_contains s ''LIMIT 7'')"

definition test_sql_select_tail_partition :: bool where
  "test_sql_select_tail_partition \<longleftrightarrow>
     (let s = sql_select_tail ''d'' ''t'' ''ts'' (Some ''20260503'') 10
      in str_contains s (''WHERE _partition_id = '' @ [SQUOTE] @ ''20260503'' @ [SQUOTE])
       \<and> (case (str_find ''WHERE'' s, str_find ''ORDER BY'' s) of
             (Some where_pos, Some order_pos) \<Rightarrow> where_pos < order_pos
           | _ \<Rightarrow> False)
       \<and> str_contains s ''ORDER BY ts DESC'' \<and> str_contains s ''LIMIT 10'')"

lemma tls_tests:
  "test_tls_default_is_valid" "test_tls_insecure_only" "test_tls_ca_bundle_only"
  "test_compression_default" "test_driver_new_rejects_conflict from_pem build"
  by (simp_all add: test_tls_default_is_valid_def test_tls_insecure_only_def test_tls_ca_bundle_only_def
      test_compression_default_def test_driver_new_rejects_conflict_def test_driver_def
      driver_new_rejects_conflict tls_default_def tls_validate_def compression_default_def)

lemma tls_conflict_test: "test_tls_conflict"
  by code_simp

lemma small_numbers:
  "show_nat 10 = ''10''" "show_nat 5 = ''5''" "show_nat 7 = ''7''" "show_nat 60 = ''60''" "show_nat 1024 = ''1024''"
  by code_simp+

lemma compression_tests:
  assumes "\<And>opts. \<exists>c. build opts = Ok c"
  shows "test_compression_enabled build" "test_compression_disabled build"
proof -
  have d: "\<exists>c. unwrap (test_driver (\<lambda>_. Ok []) build tls_default b) =
      \<lparr>base_url = ''http://localhost:8123/'', user = ''u'', password = ''p'', client = c,
       query_timeout_secs = 60, max_result_bytes = 1024, compression = \<lparr>comp_enabled = b\<rparr>\<rparr>" for b
    using assms [of "\<lparr>co_gzip = b, co_accept_invalid_certs = False, co_accept_invalid_hostnames = False,
        co_roots = []\<rparr>"]
    by (auto simp: test_driver_def driver_new_def tls_validate_def tls_default_def)
  have on: "str_contains (''SELECT 1'' @ '' SETTINGS max_execution_time='' @ ''60'' @ '', readonly=2'' @
      '', enable_http_compression=1'') ''enable_http_compression=1''" by code_simp
  have off: "\<not> str_contains (''SELECT 1'' @ '' SETTINGS max_execution_time='' @ ''60'' @ '', max_result_bytes='' @
      ''1024'' @ '', readonly=2'' @ []) ''enable_http_compression''" by code_simp
  show "test_compression_enabled build"
    using d [of True] on by (auto simp: test_compression_enabled_def append_settings_def Let_def small_numbers
        simp del: append_Cons)
  show "test_compression_disabled build"
    using d [of False] off by (auto simp: test_compression_disabled_def append_settings_def Let_def small_numbers
        simp del: append_Cons)
qed

lemma sql_table_pk_test: "test_sql_table_pk"
  by code_simp

lemma sql_tail_tests:
  "test_sql_select_tail_quotes" "test_sql_select_tail_tuple" "test_sql_select_tail_per_column"
  "test_sql_select_tail_partition"
  by code_simp+

end
