(* ===== verification/HandleTests.thy ===== *)
theory HandleTests
  imports UnitTests HumanBytes
begin

text \<open>
  The unit tests of \<open>stream.rs\<close>, \<open>fs.rs\<close> and \<open>readme.rs\<close>, as in \<open>UnitTests\<close>.  The tests of \<open>stream.rs\<close> run
  at any server, any driver and any state of the world: they replace the handle's channel state.
  Random identifiers are 36 characters long and differ, as hypotheses of the two tests about them.
  The tests of \<open>readme.rs\<close> use \<open>serde_json\<close> on the values and documents that they name: a finite
  instance of its interface.
\<close>

section \<open>\<open>stream.rs\<close>\<close>

definition test_stream_driver ::
  "(bytes \<Rightarrow> string + 'cert list) \<Rightarrow> ('cert client_options \<Rightarrow> string + 'client) \<Rightarrow> 'client http_driver" where
  "test_stream_driver from_pem build =
     unwrap (driver_new from_pem build ''http://127.0.0.1:1/'' ''x'' [] 60 0 tls_default compression_default)"

text \<open>\<open>cancel\<close> stops the task; the handle no longer reads from it, since \<open>upstream_done\<close> is set.\<close>

definition fake_handle ::
  "'w env \<Rightarrow> 'client http_driver \<Rightarrow> bytes \<Rightarrow> 'w \<Rightarrow> 'client stream_handle \<times> 'w" where
  "fake_handle e driver body w =
     (case stream_spawn e driver ''SELECT 1'' None w of (h, w') \<Rightarrow>
        (h\<lparr>sh_inner := (sh_inner h)\<lparr>pending := pending (sh_inner h) @ body, upstream_done := True,
           last_err := None\<rparr>\<rparr>, w'))"

abbreviation is_read_order :: "clickfs_error + bytes \<Rightarrow> bool" where
  "is_read_order r \<equiv> (case r of Inl (ReadOrder _ _) \<Rightarrow> True | _ \<Rightarrow> False)"

definition test_reverse_seek :: "'w env \<Rightarrow> 'client http_driver \<Rightarrow> 'w \<Rightarrow> bool" where
  "test_reverse_seek e driver w \<longleftrightarrow>
     (let (h, w) = fake_handle e driver ''abcdefghij'' w;
          (buf, h, w) = read_blocking e h 0 5 w;
          (err1, h, w) = read_blocking e h 0 5 w;
          warned1 = reverse_warned h;
          (err2, h, w) = read_blocking e h 0 5 w
      in buf = Ok ''abcde'' \<and> is_read_order err1 \<and> warned1 \<and> is_read_order err2 \<and> reverse_warned h)"

definition test_sequential_reads :: "'w env \<Rightarrow> 'client http_driver \<Rightarrow> 'w \<Rightarrow> bool" where
  "test_sequential_reads e driver w \<longleftrightarrow>
     (let (h, w) = fake_handle e driver ''abcdefghij'' w;
          (a, h, w) = read_blocking e h 0 4 w;
          (b, h, w) = read_blocking e h 4 4 w;
          (c, h, w) = read_blocking e h 8 10 w
      in a = Ok ''abcd'' \<and> b = Ok ''efgh'' \<and> c = Ok ''ij'' \<and> \<not> reverse_warned h)"

definition test_query_id :: "'w env \<Rightarrow> 'client http_driver \<Rightarrow> 'w \<Rightarrow> bool" where
  "test_query_id e driver w \<longleftrightarrow>
     (let (h, w) = fake_handle e driver ''x'' w; qid = sh_query_id h
      in prefix ''clickfs-'' qid \<and> length qid = 44)"

definition test_distinct_query_ids :: "'w env \<Rightarrow> 'client http_driver \<Rightarrow> 'w \<Rightarrow> bool" where
  "test_distinct_query_ids e driver w \<longleftrightarrow>
     (let (h1, w) = fake_handle e driver ''x'' w; (h2, w) = fake_handle e driver ''y'' w
      in sh_query_id h1 \<noteq> sh_query_id h2)"

abbreviation TAB :: char where "TAB \<equiv> CHR 0x09"

definition test_reverse_rows_header :: bool where
  "test_reverse_rows_header \<longleftrightarrow>
     reverse_tsv_rows (str_join [NL] [''name'' @ TAB # ''age'', ''alice'' @ TAB # ''30'', ''bob'' @ TAB # ''40'',
       ''carol'' @ TAB # ''50'', []])
     = str_join [NL] [''name'' @ TAB # ''age'', ''carol'' @ TAB # ''50'', ''bob'' @ TAB # ''40'',
       ''alice'' @ TAB # ''30'', []]"

definition test_reverse_rows_empty :: bool where
  "test_reverse_rows_empty \<longleftrightarrow>
     reverse_tsv_rows [] = []
   \<and> reverse_tsv_rows [CHR ''a'', TAB, CHR ''b'', NL] = [CHR ''a'', TAB, CHR ''b'', NL]
   \<and> reverse_tsv_rows [CHR ''a'', TAB, CHR ''b''] = [CHR ''a'', TAB, CHR ''b'']"

definition test_reverse_rows_no_newline :: bool where
  "test_reverse_rows_no_newline \<longleftrightarrow>
     reverse_tsv_rows [CHR ''h'', NL, CHR ''x'', NL, CHR ''y'', NL, CHR ''z'']
     = [CHR ''h'', NL, CHR ''z'', NL, CHR ''y'', NL, CHR ''x'']"

definition tail_bytes :: bytes where
  "tail_bytes = ''name'' @ TAB # ''age'' @ NL # ''alice'' @ TAB # ''30'' @ NL # ''bob'' @ TAB # ''40'' @ [NL]"

definition test_tail_buffer :: "'w env \<Rightarrow> 'client http_driver \<Rightarrow> 'w \<Rightarrow> bool" where
  "test_tail_buffer e driver w \<longleftrightarrow>
     (let (h, w) = fake_handle e driver [] w;
          tail_len = len_u64 tail_bytes;
          h = h\<lparr>sh_inner := (sh_inner h)\<lparr>tail_buf := Some tail_bytes, tail_attempted := True\<rparr>\<rparr>;
          buf_origin = PSEUDO_EOF - tail_len;
          (buf, h, w) = read_blocking e h buf_origin (unat tail_len) w;
          (buf2, h, w) = read_blocking e h PSEUDO_EOF 10 w;
          (buf3, h, w) = read_blocking e h (buf_origin + 9) 10 w
      in buf = Ok tail_bytes \<and> buf2 = Ok [] \<and> buf3 = Ok (''alice'' @ TAB # ''30'' @ [NL, CHR ''b'']))"

definition test_tail_disabled :: "'w env \<Rightarrow> 'client http_driver \<Rightarrow> 'w \<Rightarrow> bool" where
  "test_tail_disabled e driver w \<longleftrightarrow>
     (let (h, w) = fake_handle e driver ''abc'' w;
          (r, h, w) = read_blocking e h 0 3 w;
          (err, h, w) = read_blocking e h (PSEUDO_EOF - 100) 4096 w
      in is_ok r \<and> is_read_order err)"

lemma fake_handle_state:
  obtains h w' where "fake_handle e driver body w = (h, w')"
    "pending (sh_inner h) = body" "pos (sh_inner h) = 0" "upstream_done (sh_inner h)"
    "last_err (sh_inner h) = None" "tail_buf (sh_inner h) = None" "\<not> reverse_warned h" "sh_tail h = None"
proof (cases "fake_handle e driver body w")
  case (Pair h w')
  then have "pending (sh_inner h) = body \<and> pos (sh_inner h) = 0 \<and> upstream_done (sh_inner h)
      \<and> last_err (sh_inner h) = None \<and> tail_buf (sh_inner h) = None \<and> \<not> reverse_warned h \<and> sh_tail h = None"
    by (auto simp: fake_handle_def stream_spawn_def inner_new_def Let_def split: prod.splits)
  with Pair that show thesis by blast
qed

text \<open>A handle without a tail context whose stream has ended reads as its pending bytes do.\<close>

lemma plain_read:
  assumes "sh_tail h = None" and "tail_buf (sh_inner h) = None"
  shows "read_blocking e h off sz w =
    (case serve (sh_inner h) (reverse_warned h) off sz of (r, g, warned) \<Rightarrow>
       (r, h\<lparr>sh_inner := g, reverse_warned := warned\<rparr>, w))"
  using assms by (simp add: read_blocking_def maybe_materialize_def need_materialize_def Let_def)

lemma ended_forward_read:
  assumes "upstream_done g" and "last_err g = None" and "tail_buf g = None"
  shows "serve g warned (pos g) sz =
    (let n = min sz (length (pending g)) in
      (Ok (take n (pending g)), g\<lparr>pending := drop n (pending g), pos := pos g + word_of_nat n\<rparr>, warned))"
  using assms by (simp add: serve_def tail_read_def forward_read_def pull_stop Let_def split: list.splits)

lemma off_cursor_read:
  assumes "off \<noteq> pos g" and "tail_buf g = None"
  shows "serve g warned off sz = (Err (ReadOrder (pos g) off), g, warned \<or> off < pos g)"
  using assms by (simp add: serve_def tail_read_def)

lemma ended_first_read:
  assumes "upstream_done g" and "last_err g = None" and "tail_buf g = None" and "pos g = k"
  shows "serve g warned k sz =
    (let n = min sz (length (pending g)) in
      (Ok (take n (pending g)), g\<lparr>pending := drop n (pending g), pos := k + word_of_nat n\<rparr>, warned))"
  using ended_forward_read [of g warned sz] assms by simp

lemma stream_tests:
  "test_reverse_seek e driver w" "test_sequential_reads e driver w" "test_tail_disabled e driver w"
proof -
  obtain h w' where h: "fake_handle e driver ''abcdefghij'' w = (h, w')"
    "pending (sh_inner h) = ''abcdefghij''" "pos (sh_inner h) = 0" "upstream_done (sh_inner h)"
    "last_err (sh_inner h) = None" "tail_buf (sh_inner h) = None" "\<not> reverse_warned h" "sh_tail h = None"
    by (rule fake_handle_state)
  show "test_reverse_seek e driver w"
    using h by (simp add: test_reverse_seek_def plain_read ended_first_read off_cursor_read)
  show "test_sequential_reads e driver w"
    using h by (simp add: test_sequential_reads_def plain_read ended_first_read off_cursor_read)
next
  obtain h w' where h: "fake_handle e driver ''abc'' w = (h, w')"
    "pending (sh_inner h) = ''abc''" "pos (sh_inner h) = 0" "upstream_done (sh_inner h)"
    "last_err (sh_inner h) = None" "tail_buf (sh_inner h) = None" "\<not> reverse_warned h" "sh_tail h = None"
    by (rule fake_handle_state)
  then show "test_tail_disabled e driver w"
    by (simp add: test_tail_disabled_def plain_read ended_first_read off_cursor_read PSEUDO_EOF_def u64_max_def)
qed

lemma query_id_test:
  assumes "\<And>w. length (fst (env_uuid e w)) = 36"
  shows "test_query_id e driver w"
  using assms [of w]
  by (auto simp: test_query_id_def fake_handle_def stream_spawn_def Let_def split: prod.splits)

lemma distinct_query_ids_test:
  assumes "\<And>w w'. snd (fake_handle e driver ''x'' w) = w' \<Longrightarrow> fst (env_uuid e w) \<noteq> fst (env_uuid e w')"
  shows "test_distinct_query_ids e driver w"
  using assms [of w]
  by (auto simp: test_distinct_query_ids_def fake_handle_def stream_spawn_def Let_def split: prod.splits)

lemma reverse_rows_tests:
  "test_reverse_rows_header" "test_reverse_rows_empty" "test_reverse_rows_no_newline"
  by code_simp+

lemma tail_bytes_length: "length tail_bytes = 25"
  by (simp add: tail_bytes_def)

lemma tail_buffer_test: "test_tail_buffer e driver w"
proof -
  obtain h w' where h: "fake_handle e driver [] w = (h, w')"
    "pending (sh_inner h) = []" "pos (sh_inner h) = 0" "upstream_done (sh_inner h)"
    "last_err (sh_inner h) = None" "tail_buf (sh_inner h) = None" "\<not> reverse_warned h" "sh_tail h = None"
    by (rule fake_handle_state)
  have "take 10 (drop 9 tail_bytes) = ''alice'' @ TAB # ''30'' @ [NL, CHR ''b'']" by (simp add: tail_bytes_def)
  then show ?thesis
    using h by (simp add: test_tail_buffer_def read_blocking_def maybe_materialize_def need_materialize_def
        serve_def tail_read_def Let_def len_u64_def tail_bytes_length PSEUDO_EOF_def u64_max_def sat_sub_def)
qed

section \<open>\<open>fs.rs\<close>\<close>

definition unreachable_driver ::
  "(bytes \<Rightarrow> string + 'cert list) \<Rightarrow> ('cert client_options \<Rightarrow> string + 'client) \<Rightarrow> 'client http_driver" where
  "unreachable_driver from_pem build =
     unwrap (driver_new from_pem build ''http://127.0.0.1:1/'' ''u'' ''p'' 5 1024 tls_default compression_default)"

definition test_new_does_not_panic ::
  "(bytes \<Rightarrow> string + 'cert list) \<Rightarrow> ('cert client_options \<Rightarrow> string + 'client) \<Rightarrow> u32 \<Rightarrow> u32 \<Rightarrow> nat \<Rightarrow> bool" where
  "test_new_does_not_panic from_pem build u g now \<longleftrightarrow>
     (let fs = clickfs_new (unreachable_driver from_pem build) tail_default u g now
      in fst (cache_get (db_cache fs) () now) = None)"

lemma fs_test: "test_new_does_not_panic from_pem build u g now"
  by (simp add: test_new_does_not_panic_def clickfs_new_def cache_new_def cache_get_def)

section \<open>\<open>readme.rs\<close>\<close>

text \<open>The values of \<open>serde_json\<close> that the tests use, with its accessors, and its parser on their documents.\<close>

datatype json = JNull | JNumber u64 | JString string | JObject "(string \<times> json) list"

definition DQ :: char where "DQ = CHR 0x22"

definition dq :: "string \<Rightarrow> string" where "dq s = DQ # s @ [DQ]"

text \<open>An object of string fields as the tests write it.\<close>

definition object_text :: "(string \<times> string) list \<Rightarrow> string" where
  "object_text fs = ''{'' @ str_join '','' (map (\<lambda>(k, v). dq k @ '':'' @ dq v) fs) @ ''}''"

definition test_json :: "(string \<times> string) list list \<Rightarrow> json json_api" where
  "test_json docs =
     \<lparr>js_from_str = (\<lambda>s. map_option (\<lambda>fs. JObject (map (map_prod id JString) fs))
        (find (\<lambda>fs. object_text fs = s) docs)),
      js_get = (\<lambda>v k. case v of JObject fs \<Rightarrow> map_of fs k | _ \<Rightarrow> None),
      js_as_str = (\<lambda>v. case v of JString s \<Rightarrow> Some s | _ \<Rightarrow> None),
      js_as_u64 = (\<lambda>v. case v of JNumber n \<Rightarrow> Some n | _ \<Rightarrow> None)\<rparr>"

definition test_human_bytes_scales :: bool where
  "test_human_bytes_scales \<longleftrightarrow>
     human_bytes 0 = ''0 B'' \<and> human_bytes 1023 = ''1023 B'' \<and> human_bytes 1024 = ''1.00 KiB''
   \<and> human_bytes (1024 * 1024) = ''1.00 MiB'' \<and> human_bytes (1024 ^ 4) = ''1.00 TiB''"

definition test_json_to_u64 :: bool where
  "test_json_to_u64 \<longleftrightarrow>
     json_to_u64 (test_json []) (JNumber 42) = Some 42
   \<and> json_to_u64 (test_json []) (JString ''9999'') = Some 9999
   \<and> json_to_u64 (test_json []) JNull = None
   \<and> json_to_u64 (test_json []) (JString ''not a number'') = None"

definition column_a :: "(string \<times> string) list" where
  "column_a = [(''name'', ''a''), (''type'', ''Int32''), (''comment'', [])]"

definition column_bc :: "(string \<times> string) list" where
  "column_bc = [(''name'', ''b|c''), (''type'', ''String''), (''comment'', ''has | pipe'')]"

definition test_render_columns :: bool where
  "test_render_columns \<longleftrightarrow>
     (let j = test_json [column_a, column_bc];
          out = render_columns j [];
          out2 = render_columns j (object_text column_a @ NL # object_text column_bc)
      in str_contains out ''_(no columns)_'' \<and> str_contains out2 ''| `a` | `Int32` |''
       \<and> str_contains out2 [CHR ''b'', BSL, PIPE, CHR ''c''] \<and> str_contains out2 (''has '' @ BSL # ''| pipe''))"

definition test_render_stats_no_parts :: bool where
  "test_render_stats_no_parts \<longleftrightarrow>
     (let out = render_stats (test_json []) [] ''0''
      in str_contains out ''**rows**: 0'' \<and> str_contains out ''no active parts'')"

definition stats_doc :: "(string \<times> string) list" where
  "stats_doc = [(''rows'', ''1000''), (''bytes_on_disk'', ''4096''), (''parts'', ''1''), (''partitions'', ''1'')]"

definition test_render_stats_real_parts :: bool where
  "test_render_stats_real_parts \<longleftrightarrow>
     (let out = render_stats (test_json [stats_doc]) (object_text stats_doc) ''1000''
      in str_contains out ''**rows**: 1000'' \<and> str_contains out ''**size on disk**: 4.00 KiB''
       \<and> str_contains out ''**active parts**: 1'' \<and> str_contains out ''**avg bytes/row**: 4.1'')"

lemma short_numbers: "show_nat 1023 = ''1023''" "show_nat 0 = ''0''" "show_nat (Suc 0) = ''1''" "show_nat 4 = ''4''"
  "show_nat 1000 = ''1000''"
  by code_simp+

lemma long_numbers: "show_nat 9999 = ''9999''" "show_nat 4096 = ''4096''"
proof -
  have "digit_char 9 = CHR ''9''" "digit_char 4 = CHR ''4''" "digit_char 0 = CHR ''0''" "digit_char 6 = CHR ''6''"
    by code_simp+
  then show "show_nat 9999 = ''9999''" "show_nat 4096 = ''4096''" by (simp_all add: show_nat.simps)
qed

lemma human_bytes_unit:
  assumes "n < 2 ^ 53" and "i < 5" and "0 < i" and "1024 ^ i \<le> n" and "n < 1024 ^ (i + 1)"
    and "int n = k * 1024 ^ i" and "0 \<le> k" and "show_nat (nat k) = s"
  shows "human_bytes (word_of_nat n) = s @ ''.00 '' @ byte_units ! i"
proof -
  have u: "unit_of n = i" using unit_of_step [of i n] assms(2,4,5) by simp
  have "n < 2 ^ 64" using assms(1) by simp
  then have "unat (word_of_nat n :: u64) = n" by (simp add: unat_of_nat take_bit_nat_eq_self)
  then have "human_bytes (word_of_nat n) = human_bytes_spec n"
    using human_bytes_exact_text [of "word_of_nat n"] assms(1) by simp
  moreover have "round_div (100 * int n) (1024 ^ i) = 100 * k"
    by (simp add: round_div_def assms(6))
  ultimately show ?thesis
    using assms u short_numbers by (simp add: human_bytes_spec_def pad_left_def)
qed

lemma human_bytes_test: "test_human_bytes_scales"
proof -
  have "human_bytes_spec 0 = ''0 B''" "human_bytes_spec 1023 = ''1023 B''" 
    by code_simp+
  then have "human_bytes 0 = ''0 B''" "human_bytes 1023 = ''1023 B''"
    using human_bytes_exact_text [of 0] human_bytes_exact_text [of 1023] by simp_all
  moreover have "human_bytes 1024 = ''1.00 KiB''" "human_bytes 1048576 = ''1.00 MiB''"
    "human_bytes 1099511627776 = ''1.00 TiB''"
    using human_bytes_unit [of 1024 1 1] human_bytes_unit [of 1048576 2 1] human_bytes_unit [of 1099511627776 4 1]
    by (simp_all add: short_numbers byte_units_def)
  ultimately show ?thesis by (simp add: test_human_bytes_scales_def)
qed

lemma json_to_u64_test: "test_json_to_u64"
proof -
  have "parse_u64 ''9999'' = Some 9999" using parse_u64_show_nat [of 9999] by (simp add: long_numbers)
  moreover have "parse_u64 ''not a number'' = None" by code_simp
  ultimately show ?thesis by (simp add: test_json_to_u64_def json_to_u64_def test_json_def)
qed

lemma render_columns_test: "test_render_columns"
  by code_simp

lemma render_stats_no_parts_test: "test_render_stats_no_parts"
  by code_simp

lemma average_text: "fmt_fixed 1 (f64_div (f64_of_u64 4096) (f64_of_u64 1000)) = ''4.1''"
  by code_simp

lemma render_stats_real_parts_test: "test_render_stats_real_parts"
proof -
  have numbers: "parse_u64 ''1000'' = Some 1000" "parse_u64 ''4096'' = Some 4096" "parse_u64 ''1'' = Some 1"
    using parse_u64_show_nat [of 1000] parse_u64_show_nat [of 4096] parse_u64_show_nat [of 1]
    by (simp_all add: short_numbers long_numbers)
  have doc: "str_trim (object_text stats_doc) = object_text stats_doc" "object_text stats_doc \<noteq> []"
    by code_simp+
  let ?j = "test_json [stats_doc]" and ?v = "JObject (map (map_prod id JString) stats_doc)"
  have parsed: "js_from_str ?j (object_text stats_doc) = Some ?v"
    by (simp add: test_json_def)
  have fields: "js_field ?j ?v ''rows'' (json_to_u64 ?j) = Some 1000"
    "js_field ?j ?v ''bytes_on_disk'' (json_to_u64 ?j) = Some 4096"
    "js_field ?j ?v ''parts'' (json_to_u64 ?j) = Some 1" "js_field ?j ?v ''partitions'' (json_to_u64 ?j) = Some 1"
    by (simp_all add: js_field_def json_to_u64_def test_json_def stats_doc_def numbers)
  have "human_bytes 4096 = ''4.00 KiB''"
    using human_bytes_unit [of 4096 1 4] by (simp add: short_numbers byte_units_def)
  then have "render_stats ?j (object_text stats_doc) ''1000'' =
      ''- **rows**: 1000'' @ [NL] @ ''- **size on disk**: 4.00 KiB (4096)'' @ [NL] @
      ''- **active parts**: 1'' @ [NL] @ ''- **partitions**: 1'' @ [NL] @ ''- **avg bytes/row**: 4.1'' @ [NL]"
    by (simp add: render_stats_def Let_def doc parsed fields opt_line_def short_numbers long_numbers
        average_text [simplified])
  moreover have "str_contains (''- **rows**: 1000'' @ [NL] @ ''- **size on disk**: 4.00 KiB (4096)'' @ [NL] @
      ''- **active parts**: 1'' @ [NL] @ ''- **partitions**: 1'' @ [NL] @ ''- **avg bytes/row**: 4.1'' @ [NL]) pat"
    if "pat \<in> {''**rows**: 1000'', ''**size on disk**: 4.00 KiB'', ''**active parts**: 1'', ''**avg bytes/row**: 4.1''}"
    for pat
    using that by (elim insertE) (simp_all, code_simp+)
  ultimately show ?thesis by (simp only: test_render_stats_real_parts_def Let_def) simp
qed

end
