(* ===== verification/FileSpec.thy ===== *)
theory FileSpec
  imports FsProps
begin

text \<open>
  Opened files as abstract objects.  A file in memory answers a read at any offset with the slice at
  that offset.  A streamed file has a cursor: a read at the cursor gets the next bytes, at the end the
  failure of the stream once, then nothing.  A read at another offset never moves the cursor; it is
  answered from the tail of the file, if there is one: the last rows of the table, aligned with the
  pseudo end of the file, which the first read far past the cursor asks for.  A released handle is bad
  for ever.  Every session, as far as one handle is concerned, is a run of such a file.
\<close>

section \<open>Files\<close>

text \<open>
  The tail of a streamed file: none (switched off, or refused by the server), not asked for yet, or
  the rows that the server gave.
\<close>

datatype tail_part = NoTail | Untried | Rows bytes

datatype open_file =
    InMemory bytes
  | Streamed bytes nat "errno option" tail_part
  | Closed

fun cursor_next :: "bytes \<Rightarrow> nat \<Rightarrow> errno option \<Rightarrow> nat \<Rightarrow> (errno + bytes) \<times> nat \<times> errno option" where
  "cursor_next c p x n =
     (if p < length c then (Ok (take n (drop p c)), min (p + n) (length c), x)
      else (case x of Some err \<Rightarrow> Err err | None \<Rightarrow> Ok [], p, None))"

definition pseudo_end :: nat where "pseudo_end = 2 ^ 63 - 1"

fun tail_answer :: "tail_part \<Rightarrow> nat \<Rightarrow> nat \<Rightarrow> errno + bytes" where
  "tail_answer (Rows buf) off n =
     (if pseudo_end \<le> off then Ok []
      else if pseudo_end \<le> off + length buf then Ok (take n (drop (off + length buf - pseudo_end) buf))
      else Err EIO)"
| "tail_answer _ off n = Err EIO"

text \<open>A tail is asked for by the first read more than 32 MiB past the cursor.\<close>

definition asks :: "nat \<Rightarrow> nat \<Rightarrow> tail_part \<Rightarrow> bool" where
  "asks p off y \<longleftrightarrow> y = Untried \<and> p + 32 * 1024 * 1024 < off"

text \<open>A read of \<open>n\<close> bytes at an offset; \<open>rows\<close> are the tails that the server may give.\<close>

inductive file_read :: "(bytes \<Rightarrow> bool) \<Rightarrow> open_file \<Rightarrow> nat \<Rightarrow> nat \<Rightarrow> errno + bytes \<Rightarrow> open_file \<Rightarrow> bool" for rows where
  memory: "file_read rows (InMemory c) off n (Ok (take n (drop off c))) (InMemory c)"
| cursor: "cursor_next c p x n = (d, p', x') \<Longrightarrow>
    file_read rows (Streamed c p x y) p n d (Streamed c p' x' y)"
| elsewhere: "off \<noteq> p \<Longrightarrow> \<not> asks p off y \<Longrightarrow>
    file_read rows (Streamed c p x y) off n (tail_answer y off n) (Streamed c p x y)"
| refused: "off \<noteq> p \<Longrightarrow> asks p off y \<Longrightarrow>
    file_read rows (Streamed c p x y) off n (Err EIO) (Streamed c p x NoTail)"
| answered: "off \<noteq> p \<Longrightarrow> asks p off y \<Longrightarrow> rows buf \<Longrightarrow>
    file_read rows (Streamed c p x y) off n (tail_answer (Rows buf) off n) (Streamed c p x (Rows buf))"
| closed: "file_read rows Closed off n (Err EBADF) Closed"

inductive file_trace :: "(bytes \<Rightarrow> bool) \<Rightarrow> u64 \<Rightarrow> open_file \<Rightarrow> request list \<Rightarrow> reply list \<Rightarrow> bool" for rows fh where
  stop: "file_trace rows fh f [] []"
| read: "file_read rows f (unat (i64_max0 off)) (unat sz) d f' \<Longrightarrow> file_trace rows fh f' qs rs \<Longrightarrow>
    file_trace rows fh f (ReqRead fh off sz # qs) (RepData d # rs)"
| release: "file_trace rows fh Closed qs rs \<Longrightarrow> file_trace rows fh f (ReqRelease fh # qs) (r # rs)"
| other: "(\<And>off sz. q \<noteq> ReqRead fh off sz) \<Longrightarrow> q \<noteq> ReqRelease fh \<Longrightarrow> file_trace rows fh f qs rs \<Longrightarrow>
    file_trace rows fh f (q # qs) (r # rs)"

inductive_cases traceE: "file_trace rows fh f (q # qs) rs"
inductive_cases streamed_readE: "file_read rows (Streamed c p x y) off n d f'"

inductive_simps trace_nil: "file_trace rows fh f [] rs"
inductive_simps closed_read: "file_read rows Closed off n d f'"

lemma trace_read:
  "file_trace rows fh f (ReqRead fh off sz # qs) rs \<longleftrightarrow>
     (\<exists>d f' rs'. rs = RepData d # rs' \<and> file_read rows f (unat (i64_max0 off)) (unat sz) d f'
        \<and> file_trace rows fh f' qs rs')"
  by (auto elim!: traceE intro: file_trace.read)

lemma trace_release:
  "file_trace rows fh f (ReqRelease fh # qs) rs \<longleftrightarrow> (\<exists>r rs'. rs = r # rs' \<and> file_trace rows fh Closed qs rs')"
  by (auto elim!: traceE intro: file_trace.release)

lemma trace_other:
  assumes "\<And>off sz. q \<noteq> ReqRead fh off sz" and "q \<noteq> ReqRelease fh"
  shows "file_trace rows fh f (q # qs) rs \<longleftrightarrow> (\<exists>r rs'. rs = r # rs' \<and> file_trace rows fh f qs rs')"
  using assms by (auto elim!: traceE intro: file_trace.other)

lemma read_without_tail:
  "file_read rows (Streamed c p x NoTail) off n d f' \<longleftrightarrow>
     (if off = p then (case cursor_next c p x n of (d', p', x') \<Rightarrow> d = d' \<and> f' = Streamed c p' x' NoTail)
      else d = Err EIO \<and> f' = Streamed c p x NoTail)"
  by (auto simp: asks_def elim!: streamed_readE intro: file_read.cursor file_read.elsewhere [where y = NoTail, simplified]
      split: prod.splits)

lemmas trace_simps = trace_nil trace_read trace_release trace_other closed_read read_without_tail

section \<open>Servers\<close>

text \<open>Every text and every streamed answer is shorter than \<open>2 ^ 62\<close> bytes.\<close>

definition short_answers :: "'w env \<Rightarrow> bool" where
  "short_answers e \<longleftrightarrow>
     (\<forall>rq w resp w'. env_send e rq w = (Ok resp, w') \<longrightarrow>
        (\<forall>body. rs_text resp = Ok body \<longrightarrow> length body < 2 ^ 62)
      \<and> length (items_bytes (map stream_item (rs_chunks resp))) < 2 ^ 62)"

lemma short_text:
  assumes "short_answers e" and "query_text e d sql w = (Ok body, w')"
  shows "length body < 2 ^ 62"
  using assms
  by (auto simp: query_text_def short_answers_def split: prod.splits sum.splits if_splits)

lemma short_stream:
  assumes "short_answers e" and "query_stream_with_id e d sql q w = (res, w')"
  shows "length (answer_bytes res) < 2 ^ 62"
  using assms
  by (auto simp: query_stream_with_id_def short_answers_def answer_bytes_def Let_def
      split: prod.splits sum.splits if_splits)

section \<open>The handle of a file\<close>

definition short_buf :: "bytes option \<Rightarrow> bool" where
  "short_buf b \<longleftrightarrow> (case b of None \<Rightarrow> True | Some buf \<Rightarrow> length buf < 2 ^ 62)"

definition at_cursor :: "bytes \<Rightarrow> nat \<Rightarrow> errno option \<Rightarrow> stream_inner \<Rightarrow> bool" where
  "at_cursor c p x g \<longleftrightarrow>
     inner_inv g \<and> unat (pos g) = p \<and> p \<le> length c \<and> length c < 2 ^ 62 \<and> fwd_rest g = drop p c
   \<and> map_option query_errno (fwd_err g) = x \<and> short_buf (tail_buf g)"

definition last_rows :: "'w env \<Rightarrow> 'client http_driver \<Rightarrow> string \<Rightarrow> bytes \<Rightarrow> bool" where
  "last_rows e d sql buf \<longleftrightarrow> (\<exists>w body w'. query_text e d sql w = (Ok body, w') \<and> buf = reverse_tsv_rows body)"

fun has_tail :: "(bytes \<Rightarrow> bool) \<Rightarrow> 'client stream_handle \<Rightarrow> tail_part \<Rightarrow> bool" where
  "has_tail rows s NoTail \<longleftrightarrow>
     tail_buf (sh_inner s) = None \<and> (tail_attempted (sh_inner s) \<or> sh_tail s = None)"
| "has_tail rows s Untried \<longleftrightarrow>
     tail_buf (sh_inner s) = None \<and> \<not> tail_attempted (sh_inner s) \<and> sh_tail s \<noteq> None"
| "has_tail rows s (Rows buf) \<longleftrightarrow>
     tail_buf (sh_inner s) = Some buf \<and> tail_attempted (sh_inner s) \<and> rows buf"

text \<open>The rows are those of the handle's own tail query.\<close>

definition own_rows :: "'w env \<Rightarrow> (bytes \<Rightarrow> bool) \<Rightarrow> 'client stream_handle \<Rightarrow> bool" where
  "own_rows e rows s \<longleftrightarrow> (\<forall>tc. sh_tail s = Some tc \<longrightarrow> rows = last_rows e (sh_driver s) (tail_sql tc))"

fun implements ::
  "'w env \<Rightarrow> (bytes \<Rightarrow> bool) \<Rightarrow> 'client file_handle option \<Rightarrow> open_file \<Rightarrow> bool" where
  "implements e rows (Some (HSpecial buf)) (InMemory c) \<longleftrightarrow> buf = c"
| "implements e rows (Some (HStream s)) (Streamed c p x y) \<longleftrightarrow>
     at_cursor c p x (sh_inner s) \<and> has_tail rows s y \<and> own_rows e rows s"
| "implements e rows None Closed \<longleftrightarrow> True"
| "implements e rows _ _ \<longleftrightarrow> False"

fun_cases memory_fileE: "implements e rows (Some (HSpecial buf)) f"
fun_cases stream_fileE: "implements e rows (Some (HStream s)) f"
fun_cases no_fileE: "implements e rows None f"

lemma at_cursor_inv: "at_cursor c p x g \<Longrightarrow> fwd_inv g"
  by (auto simp: at_cursor_def fwd_inv_def below_window_def short_buf_def split: option.splits)

text \<open>A read at the cursor.\<close>

lemma at_cursor_read:
  assumes g: "at_cursor c p x g" and n: "0 < n" and r: "cursor_read g n = (res, g')"
  shows "\<exists>d p' x'. cursor_next c p x n = (d, p', x') \<and> at_cursor c p' x' g'
    \<and> tail_buf g' = tail_buf g \<and> tail_attempted g' = tail_attempted g \<and> d = (case res of Inr b \<Rightarrow> Ok b | Inl err \<Rightarrow> Err (to_errno err))"
proof (cases "p < length c")
  case True
  note inv = at_cursor_inv [OF g]
  have rest: "fwd_rest g = drop p c" using g by (simp add: at_cursor_def)
  with True have ne: "fwd_rest g \<noteq> []" by simp
  have le: "last_err g = None"
    using cursor_read_stored_err [OF inv] ne by (cases "last_err g") auto
  have bw: "below_window g" using inv by (simp add: fwd_inv_def)
  obtain g1 where g1: "forward_read g n = (Ok (take n (fwd_rest g)), g1)" "fwd_rest g1 = drop n (fwd_rest g)"
    "fwd_err g1 = fwd_err g" "fwd_inv g1" "pos g1 = pos g + word_of_nat (min n (length (fwd_rest g)))"
    using forward_read_data [OF inv le ne n] by blast
  with r cursor_read_simp [OF bw, of n] le have res: "res = Ok (take n (drop p c))" "g' = g1"
    using rest by auto
  have buf: "tail_buf g1 = tail_buf g" "tail_attempted g1 = tail_attempted g"
    using g1(1) pull_frame [of n g] by (auto simp: forward_read_def Let_def split: list.splits option.splits)
  let ?m = "min n (length c - p)"
  have "unat (pos g) + ?m \<le> length c" and "length c < 2 ^ 62" using g by (auto simp: at_cursor_def)
  then have "unat (pos g) + ?m < 2 ^ 64" by simp
  then have "unat (pos g1) = p + ?m"
    using g g1(5) rest by (simp add: at_cursor_def unat_word_ariths unat_of_nat take_bit_nat_eq_self)
  then have "at_cursor c (min (p + n) (length c)) x g1"
    using g g1 rest buf True
    by (auto simp: at_cursor_def fwd_inv_def min_def add.commute)
  with True res buf show ?thesis by simp
next
  case False
  note inv = at_cursor_inv [OF g]
  have p: "p = length c" and rest: "fwd_rest g = []" using g False by (auto simp: at_cursor_def)
  have end_state: "at_cursor c p None g1" if "fwd_rest g1 = []" "fwd_err g1 = None" "fwd_inv g1"
    "pos g1 = pos g" "tail_buf g1 = tail_buf g" for g1
    using g that p by (simp add: at_cursor_def fwd_inv_def)
  have bw: "below_window g" using inv by (simp add: fwd_inv_def)
  show ?thesis
  proof (cases "last_err g")
    case None
    obtain g1 where g1: "forward_read g n = ((case fwd_err g of Some e \<Rightarrow> Err (Query e) | None \<Rightarrow> Ok []), g1)"
      "fwd_rest g1 = []" "fwd_err g1 = None" "fwd_inv g1" "pos g1 = pos g"
      using forward_read_end [OF inv None rest n] by blast
    have "tail_buf g1 = tail_buf g" "tail_attempted g1 = tail_attempted g"
      using g1(1) pull_frame [of n g] by (auto simp: forward_read_def Let_def split: list.splits option.splits)
    moreover have "res = (case fwd_err g of Some e \<Rightarrow> Err (Query e) | None \<Rightarrow> Ok [])" "g' = g1"
      using r cursor_read_simp [OF bw, of n] None g1(1) by auto
    ultimately show ?thesis
      using end_state g1 False g by (auto simp: at_cursor_def split: option.splits)
  next
    case (Some q)
    note e = cursor_read_stored_err [OF inv Some, of n]
    with r have "res = Err (Query q)" "g' = g\<lparr>last_err := None\<rparr>" by auto
    with e end_state [of g'] False g show ?thesis by (auto simp: at_cursor_def)
  qed
qed

text \<open>A read elsewhere.\<close>

lemma same_forward_rest:
  assumes "same_forward g g'"
  shows "fwd_rest g' = fwd_rest g" "fwd_err g' = fwd_err g" "inner_inv g' = inner_inv g" "pos g' = pos g"
  using assms by (simp_all add: same_forward_def fwd_rest_def fwd_err_def inner_inv_def split: option.split)

lemma at_cursor_forward:
  "at_cursor c p x g \<Longrightarrow> same_forward g g' \<Longrightarrow> short_buf (tail_buf g') \<Longrightarrow> at_cursor c p x g'"
  using same_forward_rest by (simp add: at_cursor_def)

lemma serve_elsewhere:
  assumes "has_tail rows h y" and "short_buf (tail_buf (sh_inner h))" and "offset \<noteq> pos (sh_inner h)"
    and "serve (sh_inner h) warned offset n = (r, g', warned')"
  shows "g' = sh_inner h \<and> (case r of Inr b \<Rightarrow> Ok b | Inl err \<Rightarrow> Err (to_errno err)) = tail_answer y (unat offset) n"
proof (cases y)
  case (Rows buf)
  then have buf: "tail_buf (sh_inner h) = Some buf" "length buf < 2 ^ 63 - 1"
    using assms(1,2) by (auto simp: short_buf_def)
  from tail_read_cases [OF buf, of offset n] assms(3,4) Rows show ?thesis
    by (auto simp: serve_def pseudo_end_def split: if_splits)
qed (use assms in \<open>auto simp: serve_def tail_read_def split: option.splits\<close>)

lemma asks_need:
  assumes "at_cursor c p x (sh_inner h)" and "has_tail rows h y" and "offset \<noteq> pos (sh_inner h)"
  shows "need_materialize h offset \<longleftrightarrow> asks p (unat offset) y"
proof -
  have "unat (pos (sh_inner h)) + 32 * 1024 * 1024 < 2 ^ 64" using assms(1) by (auto simp: at_cursor_def)
  then have "unat (sat_add (pos (sh_inner h)) TAIL_TRIGGER_GAP) = p + 32 * 1024 * 1024"
    using assms(1) by (simp add: at_cursor_def unat_sat_add TAIL_TRIGGER_GAP_def)
  with assms show ?thesis
    by (cases y) (auto simp: need_materialize_def asks_def Let_def word_less_nat_alt)
qed

lemma elsewhere_read:
  assumes g: "at_cursor c p x (sh_inner h)" and ht: "has_tail rows h y" and own: "own_rows e rows h"
    and e: "short_answers e" and off: "offset \<noteq> pos (sh_inner h)"
    and r: "read_blocking e h offset n w = (r, h', w')"
  shows "\<exists>y'. file_read rows (Streamed c p x y) (unat offset) n
        (case r of Inr b \<Rightarrow> Ok b | Inl err \<Rightarrow> Err (to_errno err)) (Streamed c p x y')
     \<and> at_cursor c p x (sh_inner h') \<and> has_tail rows h' y' \<and> own_rows e rows h'"
proof -
  obtain h1 w1 where m: "maybe_materialize e h offset w = (h1, w1)" by fastforce
  obtain r1 g1 b1 where s: "serve (sh_inner h1) (reverse_warned h1) offset n = (r1, g1, b1)"
    using prod_cases3 by blast
  have np: "unat offset \<noteq> p" using g off by (simp add: at_cursor_def word_unat_eq_iff)
  note fwd = maybe_materialize_forward [of h e offset w, unfolded m fst_conv]
  then have off1: "offset \<noteq> pos (sh_inner h1)" using off by (simp add: same_forward_def)
  have same: "sh_tail h1 = sh_tail h" "sh_driver h1 = sh_driver h"
    using maybe_materialize_once [OF m] by simp_all
  have h': "r = r1" "h' = h1\<lparr>sh_inner := g1, reverse_warned := b1\<rparr>" using r m s by (simp_all add: read_blocking_def)
  have step: "\<exists>y'. short_buf (tail_buf (sh_inner h1)) \<and> has_tail rows h1 y' \<and>
      (if asks p (unat offset) y then y' = NoTail \<or> (\<exists>buf. y' = Rows buf \<and> rows buf) else y' = y)"
  proof (cases "need_materialize h offset")
    case False
    then have "h1 = h" using maybe_materialize_once [OF m] by simp
    with False g ht asks_need [OF g ht off] show ?thesis by (auto simp: at_cursor_def)
  next
    case True
    then obtain tc where tc: "sh_tail h = Some tc" by (auto simp: need_materialize_def Let_def)
    obtain res w2 where q: "query_text e (sh_driver h) (tail_sql tc) w = (res, w2)" by fastforce
    have asked: "asks p (unat offset) y" using True asks_need [OF g ht off] by simp
    have none: "tail_buf (sh_inner h) = None" using True by (simp add: need_materialize_def Let_def)
    show ?thesis
    proof (cases res)
      case (Inl err)
      with True tc q m none have "tail_attempted (sh_inner h1)" "tail_buf (sh_inner h1) = None"
        by (auto simp: maybe_materialize_def materialize_tail_def)
      with asked show ?thesis by (intro exI [of _ NoTail]) (simp add: short_buf_def)
    next
      case (Inr body)
      with True tc q m have "tail_attempted (sh_inner h1)" "tail_buf (sh_inner h1) = Some (reverse_tsv_rows body)"
        by (auto simp: maybe_materialize_def materialize_tail_def)
      moreover have "rows (reverse_tsv_rows body)" using own tc q Inr by (auto simp: own_rows_def last_rows_def)
      moreover have "length body < 2 ^ 62" using q Inr short_text [OF e] by simp
      ultimately show ?thesis
        using asked by (intro exI [of _ "Rows (reverse_tsv_rows body)"]) (simp add: short_buf_def reverse_tsv_length)
    qed
  qed
  then obtain y' where y': "short_buf (tail_buf (sh_inner h1))" "has_tail rows h1 y'"
    "if asks p (unat offset) y then y' = NoTail \<or> (\<exists>buf. y' = Rows buf \<and> rows buf) else y' = y" by blast
  note served = serve_elsewhere [OF y'(2,1) off1 s]
  have "file_read rows (Streamed c p x y) (unat offset) n (tail_answer y' (unat offset) n) (Streamed c p x y')"
    using y'(3) np by (cases "asks p (unat offset) y") (auto intro: file_read.intros)
  moreover have "at_cursor c p x (sh_inner h')"
    using at_cursor_forward [OF g fwd y'(1)] h'(2) served by simp
  moreover have "has_tail rows h' y'" using y'(2) h'(2) served by (cases y') simp_all
  moreover have "own_rows e rows h'" using own same h'(2) by (simp add: own_rows_def)
  ultimately show ?thesis using served h'(1) by auto
qed

section \<open>Every request\<close>

lemma read_step:
  assumes f: "implements e rows (fmlookup (handles fs) fh) f" and e: "short_answers e" and sz: "0 < sz"
    and r: "fs_read e fh off sz fs w = (d, fs', w')"
  shows "\<exists>f'. file_read rows f (unat (i64_max0 off)) (unat sz) d f'
    \<and> implements e rows (fmlookup (handles fs') fh) f'"
proof (cases "fmlookup (handles fs) fh")
  case None
  with f r show ?thesis by (auto simp: fs_read_def elim!: no_fileE intro: file_read.intros)
next
  case (Some hdl)
  show ?thesis
  proof (cases hdl)
    case (HSpecial buf)
    with f Some have "f = InMemory buf" by (auto elim: memory_fileE)
    moreover have "special_read buf off (unat sz) = take (unat sz) (drop (unat (i64_max0 off)) buf)"
      by (auto simp: special_read_def Let_def min_def)
    ultimately show ?thesis
      using r Some HSpecial by (intro exI [of _ f]) (auto simp: fs_read_def intro: file_read.memory)
  next
    case (HStream s)
    with f Some obtain c p x y where fc: "f = Streamed c p x y" "at_cursor c p x (sh_inner s)"
      "has_tail rows s y" "own_rows e rows s"
      by (auto elim!: stream_fileE)
    obtain q s' w1 where q: "read_blocking e s (i64_max0 off) (unat sz) w = (q, s', w1)"
      using prod_cases3 by blast
    with r Some HStream have d: "d = (case q of Inr b \<Rightarrow> Ok b | Inl err \<Rightarrow> Err (to_errno err))"
      "fmlookup (handles fs') fh = Some (HStream s')"
      by (auto simp: fs_read_def)
    have n: "0 < unat sz" using sz unat_pos_nz by simp
    show ?thesis
    proof (cases "i64_max0 off = pos (sh_inner s)")
      case True
      obtain res g' where c: "cursor_read (sh_inner s) (unat sz) = (res, g')" by fastforce
      from read_blocking_cursor [OF at_cursor_inv [OF fc(2)] c, of e w] q True
      have s': "q = res" "s' = s\<lparr>sh_inner := g'\<rparr>" by auto
      obtain p' x' where cn: "cursor_next c p x (unat sz) = (d, p', x')" "at_cursor c p' x' g'"
        "tail_buf g' = tail_buf (sh_inner s)" "tail_attempted g' = tail_attempted (sh_inner s)"
        using at_cursor_read [OF fc(2) n c] d s' by auto
      have "unat (i64_max0 off) = p" using True fc(2) by (simp add: at_cursor_def)
      then have "file_read rows f (unat (i64_max0 off)) (unat sz) d (Streamed c p' x' y)"
        using fc(1) file_read.cursor [OF cn(1)] by simp
      moreover have "has_tail rows s' y" "own_rows e rows s'"
        using fc(3,4) s' cn(3,4) by (cases y; simp add: own_rows_def)+
      ultimately show ?thesis using d s' cn(2) by auto
    next
      case False
      from elsewhere_read [OF fc(2-4) e False q] fc(1) d show ?thesis by auto
    qed
  qed
qed

text \<open>A request that neither reads nor releases a handle keeps it, unless it opens this very number.\<close>

lemma other_step:
  assumes "fs_handle x full q fs w = Some (r, fs', w')" and "fh \<noteq> fh_counter fs"
    and "\<And>off sz. q \<noteq> ReqRead fh off sz" and "q \<noteq> ReqRelease fh"
  shows "fmlookup (handles fs') fh = fmlookup (handles fs) fh"
proof (cases q)
  case (ReqLookup parent name)
  then obtain a where "fs_lookup x parent name fs w = Some (a, fs', w')" using assms(1) by auto
  then show ?thesis
    by (auto simp: fs_lookup_def Let_def same_but_caches_def dest!: verify_same
        split: sum.splits option.splits prod.splits)
next
  case (ReqReaddir i offset)
  then obtain a where "fs_readdir x full i offset fs w = Some (a, fs', w')" using assms(1) by auto
  then show ?thesis
    by (auto simp: fs_readdir_def Let_def same_but_caches_def dest!: dir_entries_same
        split: sum.splits option.splits prod.splits)
next
  case (ReqOpen i flags)
  then obtain a where "fs_open x i flags fs w = (a, fs', w')"
    using assms(1) by (cases "fs_open x i flags fs w") auto
  then show ?thesis using assms(2) by (auto elim!: open_cases)
next
  case (ReqRead fh' off sz)
  then obtain a where "fs_read (x_env x) fh' off sz fs w = (a, fs', w')"
    using assms(1) by (cases "fs_read (x_env x) fh' off sz fs w") auto
  then show ?thesis using read_other [of "x_env x" fh' off sz fs w a fs' w' fh] assms(3) ReqRead by auto
next
  case (ReqRelease fh')
  then have "fs' = fst (fs_release (x_env x) fh' fs w)" using assms(1) by auto
  then show ?thesis using assms(4) ReqRelease by (auto simp: release_handles)
qed (use assms in auto)

fun reads_bytes :: "request \<Rightarrow> bool" where
  "reads_bytes (ReqRead fh off sz) \<longleftrightarrow> 0 < sz"
| "reads_bytes _ \<longleftrightarrow> True"

lemma run_file:
  assumes "implements (x_env x) rows (fmlookup (handles fs) fh) f" and e: "short_answers (x_env x)"
    and "list_all reads_bytes qs" and "unat fh < unat (fh_counter fs)"
    and "unat (fh_counter fs) + length qs < 2 ^ 64" and "fs_run x full qs fs w = Some (rs, fs', w')"
  shows "file_trace rows fh f qs rs"
  using assms(1,3-6)
proof (induction qs arbitrary: f fs w rs)
  case (Cons q qs)
  obtain r fs1 w1 where q: "fs_handle x full q fs w = Some (r, fs1, w1)"
    using Cons.prems(5) by (auto split: option.splits)
  then obtain rs1 where rest: "fs_run x full qs fs1 w1 = Some (rs1, fs', w')" and rs: "rs = r # rs1"
    using Cons.prems(5) by auto
  have "unat (fh_counter fs + 1) = unat (fh_counter fs) + 1"
    using Cons.prems(4) by (intro unat_Suc_u64) simp
  then have "unat fh < unat (fh_counter fs1)" "unat (fh_counter fs1) + length qs < 2 ^ 64"
    using handle_step_handles [OF q] Cons.prems(3,4) by auto
  then have tail: "file_trace rows fh f' qs rs1" if "implements (x_env x) rows (fmlookup (handles fs1) fh) f'" for f'
    using Cons.IH [OF that _ _ _ rest] Cons.prems(2) by simp
  consider (read) off sz where "q = ReqRead fh off sz" | (release) "q = ReqRelease fh"
    | (other) "\<And>off sz. q \<noteq> ReqRead fh off sz" "q \<noteq> ReqRelease fh" by blast
  then show ?case
  proof cases
    case read
    then obtain d where d: "fs_read (x_env x) fh off sz fs w = (d, fs1, w1)" "r = RepData d"
      using q by (cases "fs_read (x_env x) fh off sz fs w") auto
    with read_step [OF Cons.prems(1) e _ d(1)] Cons.prems(2) read rs tail show ?thesis
      by (auto intro: file_trace.read)
  next
    case release
    then have "fs1 = fst (fs_release (x_env x) fh fs w)" using q by auto
    then have "file_trace rows fh Closed qs rs1" by (intro tail) (simp add: release_handles)
    with release rs show ?thesis by (auto intro: file_trace.release)
  next
    case other
    have "fh \<noteq> fh_counter fs" using Cons.prems(3) by auto
    from tail other_step [OF q this other] Cons.prems(1) have "file_trace rows fh f qs rs1" by simp
    with other rs show ?thesis by (auto intro: file_trace.other)
  qed
qed (auto intro: file_trace.stop)

section \<open>Opening\<close>

text \<open>The file that an open creates, from the answer of the server, and the rows that its tail may show.\<close>

definition opens_as ::
  "('w, 'j) ext \<Rightarrow> query_plan \<Rightarrow> 'client clickfs \<Rightarrow> 'w \<Rightarrow> 'w \<Rightarrow> (bytes \<Rightarrow> bool) \<Rightarrow> open_file \<Rightarrow> bool" where
  "opens_as x p fs w w1 rows f \<longleftrightarrow>
     (if is_stream_file p then
        \<exists>res w0 q order. query_stream_with_id (x_env x) (f_driver fs) (plan_sql p) (Some q) w0 = (res, w1)
          \<and> f = Streamed (answer_bytes res) 0 (map_option query_errno (answer_error res))
                 (if tail_enabled (f_tail_cfg fs) then Untried else NoTail)
          \<and> rows = last_rows (x_env x) (f_driver fs)
              (sql_select_tail (the (p_db p)) (the (p_table p)) order (plan_part p) (tail_rows (f_tail_cfg fs)))
      else \<exists>text. special_text x p fs w = (Ok text, w1) \<and> f = InMemory text)"

lemma open_file_result:
  assumes "fs_open x i flags fs w = (Ok fh, fs1, w1)" and "path_of fs i = Ok path" and "resolve path = Ok p"
    and "short_answers (x_env x)"
  shows "\<exists>rows f. opens_as x p fs w w1 rows f \<and> implements (x_env x) rows (fmlookup (handles fs1) fh) f"
proof (cases "is_stream_file p")
  case True
  from open_stream_ok [OF assms(1-3) True] obtain s res w0 where
    s: "fmlookup (handles fs1) fh = Some (HStream s)" "sh_driver s = f_driver fs"
      "query_stream_with_id (x_env x) (f_driver fs) (plan_sql p) (Some (sh_query_id s)) w0 = (res, w1)"
      "sh_inner s = inner_new (task_items res)"
      "sh_tail s = stream_tail x (the (p_db p)) (the (p_table p)) (plan_part p) fs w"
    by blast
  let ?order = "fst (fetch_tail_order_expr x (the (p_db p)) (the (p_table p)) fs w)"
  let ?rows = "last_rows (x_env x) (f_driver fs)
      (sql_select_tail (the (p_db p)) (the (p_table p)) ?order (plan_part p) (tail_rows (f_tail_cfg fs)))"
  let ?y = "if tail_enabled (f_tail_cfg fs) then Untried else NoTail"
  have "at_cursor (answer_bytes res) 0 (map_option query_errno (answer_error res)) (sh_inner s)"
    using short_stream [OF assms(4) s(3)] inner_new_inv [of "task_items res"]
    by (simp add: at_cursor_def s(4) inner_new_rest task_items_answer)
       (simp add: inner_new_def short_buf_def)
  moreover have "has_tail ?rows s ?y" using s(4,5) by (simp add: inner_new_def stream_tail_def)
  moreover have "own_rows (x_env x) ?rows s" using s(2,5) by (simp add: own_rows_def stream_tail_def tail_sql_def)
  ultimately have "implements (x_env x) ?rows (fmlookup (handles fs1) fh)
      (Streamed (answer_bytes res) 0 (map_option query_errno (answer_error res)) ?y)"
    using s(1) by simp
  moreover have "opens_as x p fs w w1 ?rows
      (Streamed (answer_bytes res) 0 (map_option query_errno (answer_error res)) ?y)"
    unfolding opens_as_def using True s(3) by (simp only: if_True) blast
  ultimately show ?thesis by blast
next
  case False
  from open_special_ok [OF assms(1-3) False] show ?thesis using False by (auto simp: opens_as_def)
qed

text \<open>A released handle is unknown, and reading or releasing one handle leaves the others alone.\<close>

lemma handles_isolated:
  "fs_read e fh offset sz (fst (fs_release e fh fs w)) w' =
     (Err EBADF, fst (fs_release e fh fs w), w')
   \<and> (fh' \<noteq> fh \<longrightarrow> fmlookup (handles (fst (fs_release e fh fs w))) fh' = fmlookup (handles fs) fh'
      \<and> fmlookup (handles (fst (snd (fs_read e fh offset sz fs w)))) fh' = fmlookup (handles fs) fh')"
proof -
  obtain r fs1 w1 where r: "fs_read e fh offset sz fs w = (r, fs1, w1)"
    using prod_cases3 by blast
  show ?thesis
    using read_unknown [of "fst (fs_release e fh fs w)" fh e offset sz w'] read_other [OF r, of fh']
    by (simp add: release_handles r)
qed

end
