(* ===== verification/Listings.thy ===== *)
theory Listings
  imports TreeRefine
begin

text \<open>
  Listing a directory of databases or of tables, and the storm of lookups that a client such as
  \<open>ls -l\<close> sends after it: while the listing is in its cache none of them sends a request.
\<close>

section \<open>Stored listings\<close>

definition stored :: "('k, 'v) ttl_cache \<Rightarrow> 'k \<Rightarrow> nat \<Rightarrow> bool" where
  "stored c k t0 \<longleftrightarrow> (\<exists>v. fmlookup (cmap c) k = Some (v, t0))"

lemma fetch_stored:
  assumes "cache_lens sel upd" and "stored (sel fs) k t0" and "env_now e w = (t, w1)"
    and "t - t0 \<le> cttl (sel fs)"
  shows "\<exists>v. fetch_cached sel upd parse e k sql fs w = (Ok v, fs, w1)"
  using assms
  by (auto simp: fetch_cached_def stored_def cache_get_def elapsed_def cache_lens_def)

text \<open>A successful fetch leaves its listing stored, since the last time that it read.\<close>

lemma fetch_stores:
  assumes lens: "cache_lens sel upd" and f: "fetch_cached sel upd parse e k sql fs w = (Ok v, fs', w')"
  shows "\<exists>t0. stored (sel fs') k t0 \<and>
    ((\<exists>t. env_now e w = (t, w') \<and> t - t0 \<le> cttl (sel fs)) \<or> (\<exists>w2. env_now e w2 = (t0, w')))"
proof -
  obtain t w1 where now: "env_now e w = (t, w1)" by fastforce
  obtain o1 c1 where g: "cache_get (sel fs) k t = (o1, c1)" by fastforce
  show ?thesis
  proof (cases o1)
    case (Some u)
    with g obtain t0 where "fmlookup (cmap (sel fs)) k = Some (u, t0)" "t - t0 \<le> cttl (sel fs)" "c1 = sel fs"
      by (auto simp: cache_get_def elapsed_def split: option.splits if_splits)
    moreover have "fs' = upd c1 fs" "w' = w1"
      using f now g Some by (simp_all add: fetch_cached_def)
    ultimately show ?thesis using lens now by (auto simp: stored_def cache_lens_def)
  next
    case None
    show ?thesis
      using f now g None lens
      by (auto simp: fetch_cached_def Let_def stored_def cache_lens_def cache_insert_def
          split: prod.splits sum.splits)
  qed
qed

section \<open>Directories with a listing\<close>

definition listing_dir :: "query_plan \<Rightarrow> bool" where
  "listing_dir p \<longleftrightarrow> p_kind p = DbNamespace \<or> p_kind p = ListTables"

definition listed_since :: "query_plan \<Rightarrow> 'client clickfs \<Rightarrow> nat \<Rightarrow> bool" where
  "listed_since p fs t0 \<longleftrightarrow>
     (if p_kind p = DbNamespace then stored (db_cache fs) () t0
      else stored (table_cache fs) (the (p_db p)) t0)"

lemma listed_fetch:
  assumes "listed_since p fs t0" and "caches_ok fs" and "env_now e w = (t, w1)" and "t - t0 \<le> cache_ttl"
  shows "p_kind p = DbNamespace \<Longrightarrow> \<exists>v. fetch_databases e fs w = (Ok v, fs, w1)"
    and "p_kind p \<noteq> DbNamespace \<Longrightarrow> \<exists>v. fetch_tables e (the (p_db p)) fs w = (Ok v, fs, w1)"
  using assms unfolding fetch_databases_def fetch_tables_def
  by (intro fetch_stored cache_lenses; simp add: listed_since_def caches_ok_def)+

lemma listed_entries:
  assumes "listing_dir p" and "listed_since p fs t0" and "caches_ok fs" and "env_now e w = (t, w1)"
    and "t - t0 \<le> cache_ttl"
  shows "\<exists>es. dir_entries e p fs w = (Ok es, fs, w1)"
  using assms(1) listed_fetch [OF assms(2-5)]
  by (auto simp: dir_entries_def listing_dir_def list_dirs_def)

text \<open>The plan of a child needs the listing of its directory.\<close>

lemma child_plan:
  assumes "resolve_comps ns = Ok p" and "listing_dir p" and "resolve_comps (ns @ [n]) = Ok q"
  shows "(p_kind p = DbNamespace \<and> p_kind q = ListTables \<or> p_kind p = ListTables \<and> p_kind q = ListPartitions)
    \<and> p_db q = Some (if p_kind p = DbNamespace then n else the (p_db p))
    \<and> (p_kind p = ListTables \<longrightarrow> p_table q = Some n)"
  using assms
  by (cases ns rule: resolve_comps.cases)
    (auto simp: mk_plan_def listing_dir_def resolve_leaf_def Let_def split: if_splits)

lemma listed_child:
  assumes "resolve_comps ns = Ok p" and "listing_dir p" and "resolve_comps (ns @ [n]) = Ok q"
    and "listed_since p fs t0" and "caches_ok fs" and "env_now e w = (t, w1)" and "t - t0 \<le> cache_ttl"
  shows "\<exists>r. verify_plan_exists e q fs w = (r, fs, w1)"
  using child_plan [OF assms(1-3)] listed_fetch [OF assms(4-7)]
  by (auto simp: verify_plan_exists_def check_listed_def)

section \<open>The storm\<close>

fun storm_request :: "u64 \<Rightarrow> request \<Rightarrow> bool" where
  "storm_request i (ReqLookup j n) \<longleftrightarrow> j = i \<and> plain_name n"
| "storm_request i (ReqReaddir j off) \<longleftrightarrow> j = i"
| "storm_request i (ReqGetattr j) \<longleftrightarrow> True"
| "storm_request i _ \<longleftrightarrow> False"

text \<open>The world after the clock was read a number of times.\<close>

fun ticks :: "'w env \<Rightarrow> nat \<Rightarrow> 'w \<Rightarrow> 'w" where
  "ticks e 0 w = w"
| "ticks e (Suc k) w = ticks e k (snd (env_now e w))"

definition fresh_for :: "'w env \<Rightarrow> nat \<Rightarrow> nat \<Rightarrow> 'w \<Rightarrow> bool" where
  "fresh_for e n t0 w \<longleftrightarrow> (\<forall>k < n. fst (env_now e (ticks e k w)) - t0 \<le> cache_ttl)"

lemma fresh_for_Suc:
  assumes "fresh_for e (Suc n) t0 w"
  shows "fst (env_now e w) - t0 \<le> cache_ttl" "fresh_for e n t0 w" "fresh_for e n t0 (snd (env_now e w))"
proof -
  show "fst (env_now e w) - t0 \<le> cache_ttl" using assms unfolding fresh_for_def by (metis ticks.simps(1) zero_less_Suc)
  show "fresh_for e n t0 w" using assms by (simp add: fresh_for_def)
  show "fresh_for e n t0 (snd (env_now e w))"
    unfolding fresh_for_def
  proof (intro allI impI)
    fix k assume "k < n"
    then have "fst (env_now e (ticks e (Suc k) w)) - t0 \<le> cache_ttl"
      using assms unfolding fresh_for_def by blast
    then show "fst (env_now e (ticks e k (snd (env_now e w)))) - t0 \<le> cache_ttl" by simp
  qed
qed

lemma storm_step:
  assumes dir: "path_of fs i = Ok path" "clean_path path" "resolve path = Ok p" "listing_dir p"
    and l: "listed_since p fs t0" "caches_ok fs" and t: "fst (env_now (x_env x) w) - t0 \<le> cache_ttl"
    and q: "storm_request i q" and wf: "inode_wf (inodes fs)"
    and h: "fs_handle x full q fs w = Some (r, fs', w')"
  shows "\<exists>tb. fs' = fs\<lparr>inodes := tb\<rparr> \<and> inodes_grow (inodes fs) tb
    \<and> (w' = w \<or> w' = snd (env_now (x_env x) w))"
proof (cases q)
  case (ReqGetattr j)
  with h show ?thesis by (intro exI [of _ "inodes fs"]) simp
next
  case (ReqReaddir j off)
  obtain es where es: "dir_entries (x_env x) p fs w = (Ok es, fs, snd (env_now (x_env x) w))"
    using listed_entries [OF dir(4) l] t by (metis prod.collapse)
  with ReqReaddir q h dir obtain out tb where
    "emit_entries (x_hash x) full i path (unat off) (drop (unat off) es) [] (inodes fs) = Some (out, tb)"
    "fs' = fs\<lparr>inodes := tb\<rparr>" "w' = snd (env_now (x_env x) w)"
    by (auto simp: fs_readdir_def split: option.splits)
  with emit_entries_result [OF this(1) wf] show ?thesis by auto
next
  case (ReqLookup j n)
  then have n: "plain_name n" and j: "j = i" using q by simp_all
  obtain a where a: "fs_lookup x i n fs w = Some (a, fs', w')" using h ReqLookup j by auto
  show ?thesis
  proof (cases "utf8_valid n")
    case False
    with a dir show ?thesis by (intro exI [of _ "inodes fs"]) (simp add: fs_lookup_def to_str_def)
  next
    case True
    show ?thesis
    proof (cases "resolve (path_join path n)")
      case (Inl err)
      with a dir True show ?thesis
        by (intro exI [of _ "inodes fs"]) (simp add: fs_lookup_def to_str_def Let_def)
    next
      case (Inr c)
      have en: "entry_name n" using n True by (simp add: entry_name_def)
      have "resolve_comps (path_comps path) = Ok p" and "resolve_comps (path_comps path @ [n]) = Ok c"
        using clean_join [OF dir(2) en] clean_resolve [OF dir(2)] clean_resolve [of "path_join path n"] dir(3) Inr
        by simp_all
      from listed_child [OF this(1) dir(4) this(2) l prod.collapse [symmetric] t] obtain v where
        "verify_plan_exists (x_env x) c fs w = (v, fs, snd (env_now (x_env x) w))" by auto
      with a dir True Inr show ?thesis
        by (auto simp: fs_lookup_def to_str_def Let_def allocate_grow
            split: sum.splits option.splits intro: exI [of _ "inodes fs"])
    qed
  qed
qed (use q in simp_all)

lemma storm_run:
  assumes "path_of fs i = Ok path" and "clean_path path" and "resolve path = Ok p" and "listing_dir p"
    and "listed_since p fs t0" and "caches_ok fs" and "inode_wf (inodes fs)" and "list_all (storm_request i) qs"
    and "fresh_for (x_env x) (length qs) t0 w" and "fs_run x full qs fs w = Some (rs, fs', w')"
  shows "\<exists>k \<le> length qs. w' = ticks (x_env x) k w"
  using assms(1,5-10)
proof (induction qs arbitrary: fs w rs)
  case (Cons q qs)
  obtain r fs1 w1 where q: "fs_handle x full q fs w = Some (r, fs1, w1)"
    using Cons.prems(7) by (auto split: option.splits)
  then obtain rs1 where rest: "fs_run x full qs fs1 w1 = Some (rs1, fs', w')"
    using Cons.prems(7) by auto
  have within: "fresh_for (x_env x) (Suc (length qs)) t0 w" using Cons.prems(6) by simp
  obtain tb where tb: "fs1 = fs\<lparr>inodes := tb\<rparr>" "inodes_grow (inodes fs) tb"
    "w1 = w \<or> w1 = snd (env_now (x_env x) w)"
    using storm_step [OF Cons.prems(1) assms(2-4) Cons.prems(2,3) fresh_for_Suc(1) [OF within] _ Cons.prems(4) q]
      Cons.prems(5) by auto
  have "path_of fs1 i = Ok path"
    using Cons.prems(1,4) tb(1,2) by (auto simp: path_of_def inodes_grow_def split: option.splits)
  moreover have "listed_since p fs1 t0" "caches_ok fs1" "inode_wf (inodes fs1)"
    using Cons.prems(2-4) tb(1,2) by (simp_all add: listed_since_def caches_ok_def inodes_grow_def)
  moreover have "fresh_for (x_env x) (length qs) t0 w1" using tb(3) fresh_for_Suc(2,3) [OF within] by auto
  ultimately obtain k where k: "k \<le> length qs" "w' = ticks (x_env x) k w1"
    using Cons.IH [OF _ _ _ _ _ _ rest] Cons.prems(5) by auto
  show ?case
  proof (cases "w1 = w")
    case False
    with k tb(3) have "w' = ticks (x_env x) (Suc k) w" by simp
    with k(1) show ?thesis by (intro exI [of _ "Suc k"]) simp
  qed (use k in \<open>auto intro: le_SucI\<close>)
qed (auto intro: exI [of _ 0])

text \<open>The first listing.\<close>

lemma readdir_lists:
  assumes "path_of fs i = Ok path" and "resolve path = Ok p" and "listing_dir p" and "caches_ok fs"
    and "fs_readdir x full i off fs w = Some (Ok out, fs1, w1)"
  shows "\<exists>t0. listed_since p fs1 t0 \<and>
    ((\<exists>t. env_now (x_env x) w = (t, w1) \<and> t - t0 \<le> cache_ttl) \<or> (\<exists>w2. env_now (x_env x) w2 = (t0, w1)))"
proof -
  obtain es fs2 tb where es: "dir_entries (x_env x) p fs w = (Ok es, fs2, w1)" and fs1: "fs1 = fs2\<lparr>inodes := tb\<rparr>"
    using assms(1,2,5) by (auto simp: fs_readdir_def split: option.splits sum.splits prod.splits)
  have ttl: "cttl (db_cache fs) = cache_ttl" "cttl (table_cache fs) = cache_ttl"
    using assms(4) by (simp_all add: caches_ok_def)
  show ?thesis
  proof (cases "p_kind p = DbNamespace")
    case True
    with es obtain v where "fetch_databases (x_env x) fs w = (Ok v, fs2, w1)"
      by (auto simp: dir_entries_def list_dirs_def split: sum.splits prod.splits)
    from fetch_stores [OF cache_lenses(1) this [unfolded fetch_databases_def]] True fs1 ttl
    show ?thesis by (simp add: listed_since_def)
  next
    case False
    with assms(3) es obtain v where "fetch_tables (x_env x) (the (p_db p)) fs w = (Ok v, fs2, w1)"
      by (auto simp: dir_entries_def list_dirs_def listing_dir_def split: sum.splits prod.splits)
    from fetch_stores [OF cache_lenses(2) this [unfolded fetch_tables_def]] False fs1 ttl
    show ?thesis by (simp add: listed_since_def)
  qed
qed

text \<open>A fetch of the tables of a database after a miss, and any further one within two seconds.\<close>

lemma listing_coalesced:
  assumes "caches_ok fs" and "env_now e w = (t, w1)" and "cache_fresh (table_cache fs) d t = None"
    and "query_text e (f_driver fs) (sql_list_tables d) w1 = (Ok body, w2)" and "env_now e w2 = (t2, w3)"
  shows "\<exists>fs'. fetch_tables e d fs w = (Ok (nonempty_lines body), fs', w3)
    \<and> (\<forall>w4 t' w5. env_now e w4 = (t', w5) \<and> t2 \<le> t' \<and> t' - t2 \<le> cache_ttl \<longrightarrow>
         (\<exists>fs''. fetch_tables e d fs' w4 = (Ok (nonempty_lines body), fs'', w5)))"
proof -
  from fetch_cached_miss [OF cache_lenses(2) assms(2-5), of nonempty_lines] obtain fs' where
    1: "fetch_tables e d fs w = (Ok (nonempty_lines body), fs', w3)"
      "t2 \<le> t' \<and> t' - t2 \<le> cttl (table_cache fs) \<Longrightarrow>
         cache_fresh (table_cache fs') d t' = Some (nonempty_lines body, t2)" for t'
    unfolding fetch_tables_def by auto
  have "cttl (table_cache fs) = cache_ttl" using assms(1) by (simp add: caches_ok_def)
  with 1 fetch_cached_hit [of e _ _ _ table_cache fs' d] show ?thesis
    unfolding fetch_tables_def by metis
qed

end
