(* ===== verification/Reader.thy ===== *)
theory Reader
  imports Producer
begin

text \<open>
  The loop of \<open>read_blocking\<close> (\<open>src/stream.rs\<close>) together with the task: while the read wants more bytes
  it takes what \<open>recv\<close> gives, and the task goes on at any time.  \<open>StreamHandle.pull\<close> runs the loop on
  the list of the items that are still to arrive; here every schedule of the loop, the channel and the
  task is shown to end, with the result of \<open>pull\<close>.
\<close>

definition wants :: "nat \<Rightarrow> stream_inner \<Rightarrow> bool" where
  "wants sz g \<longleftrightarrow> length (pending g) < sz \<and> \<not> upstream_done g"

inductive read_step :: "nat \<Rightarrow> stream_inner \<times> pipe \<Rightarrow> stream_inner \<times> pipe \<Rightarrow> bool" for sz where
  work: "task_step s s' \<Longrightarrow> read_step sz (g, s) (g, s')"
| bytes: "wants sz g \<Longrightarrow> recv_step s s' \<Longrightarrow> chan s = Inr b # c \<Longrightarrow>
    read_step sz (g, s) (g\<lparr>pending := pending g @ b\<rparr>, s')"
| failure: "wants sz g \<Longrightarrow> recv_step s s' \<Longrightarrow> chan s = Inl e # c \<Longrightarrow>
    read_step sz (g, s) (g\<lparr>upstream_done := True, last_err := Some e\<rparr>, s')"
| ended: "wants sz g \<Longrightarrow> recv_step s s' \<Longrightarrow> chan s = [] \<Longrightarrow>
    read_step sz (g, s) (g\<lparr>upstream_done := True\<rparr>, s')"

inductive_cases read_stepE [consumes 1, case_names work bytes failure ended]: "read_step sz (g, s) t"

text \<open>The handle's inner state with the items that the channel will still deliver.\<close>

definition with_rx :: "stream_inner \<Rightarrow> pipe \<Rightarrow> stream_inner" where
  "with_rx g s = g\<lparr>rx := chan s @ to_come s\<rparr>"

lemma with_rx_simps [simp]:
  "pending (with_rx g s) = pending g" "upstream_done (with_rx g s) = upstream_done g"
  "rx (with_rx g s) = chan s @ to_come s" "wants sz (with_rx g s) = wants sz g"
  by (simp_all add: with_rx_def wants_def)

lemma with_rx_upd:
  "with_rx (g\<lparr>pending := p\<rparr>) s = (with_rx g s)\<lparr>pending := p\<rparr>"
  "with_rx (g\<lparr>upstream_done := b\<rparr>) s = (with_rx g s)\<lparr>upstream_done := b\<rparr>"
  "with_rx (g\<lparr>upstream_done := b, last_err := x\<rparr>) s = (with_rx g s)\<lparr>upstream_done := b, last_err := x\<rparr>"
  by (cases g; simp add: with_rx_def)+

lemma with_rx_recv: "chan s' = c \<Longrightarrow> to_come s' = t \<Longrightarrow> with_rx g s' = (with_rx g s)\<lparr>rx := c @ t\<rparr>"
  by (simp add: with_rx_def)

text \<open>The receiver and the task are both alive, and the end is known to the handle once it is seen.\<close>

definition attached :: "stream_inner \<Rightarrow> pipe \<Rightarrow> bool" where
  "attached g s \<longleftrightarrow> rx_open s \<and> \<not> woken s \<and> (eof_seen s \<longrightarrow> upstream_done g)"

lemma task_step_attached:
  assumes "task_step s s'" and "attached g s"
  shows "attached g s' \<and> with_rx g s' = with_rx g s"
  using assms by (cases rule: task_step.cases) (auto simp: attached_def with_rx_def to_come_def)

text \<open>A step keeps what \<open>pull\<close> makes of the state.\<close>

lemma pull_stop_wants: "\<not> wants sz g \<Longrightarrow> pull sz g = g"
  by (auto simp: wants_def intro: pull_stop)

lemma recv_step_shape:
  assumes "recv_step s s'"
  shows "rx_open s' = rx_open s \<and> woken s' = woken s \<and> to_come s' = to_come s
    \<and> (case chan s of x # c \<Rightarrow> chan s' = c \<and> eof_seen s' = eof_seen s
       | [] \<Rightarrow> chan s' = [] \<and> to_come s = [])"
  using assms by (cases rule: recv_step.cases) (auto simp: to_come_def)

lemma read_step_pull:
  assumes "read_step sz (g, s) (g', s')" and "attached g s"
  shows "attached g' s' \<and> pull sz (with_rx g' s') = pull sz (with_rx g s)"
  using assms(1)
proof (cases rule: read_stepE)
  case work
  then show ?thesis using task_step_attached [OF _ assms(2)] by auto
next
  case (bytes s1 b c)
  note shape = recv_step_shape [OF bytes(3)]
  have "pull sz (with_rx g s) = pull sz ((with_rx g s)\<lparr>rx := c @ to_come s, pending := pending g @ b\<rparr>)"
    using bytes by (subst pull_step(3)) (simp_all add: wants_def)
  with bytes shape assms(2) with_rx_recv [of s1 c "to_come s" g s] show ?thesis
    by (simp add: with_rx_upd attached_def)
next
  case (failure s1 e c)
  note shape = recv_step_shape [OF failure(3)]
  have "pull sz (with_rx g s) = (with_rx g s)\<lparr>rx := c @ to_come s, upstream_done := True, last_err := Some e\<rparr>"
    using failure by (subst pull_step(2)) (simp_all add: wants_def)
  moreover have "pull sz (with_rx g' s') = with_rx g' s'" using failure by (intro pull_stop) simp
  ultimately show ?thesis
    using failure shape assms(2) with_rx_recv [of s1 c "to_come s" g s] by (simp add: with_rx_upd attached_def)
next
  case ended
  note shape = recv_step_shape [OF ended(3)]
  have "pull sz (with_rx g s) = (with_rx g s)\<lparr>upstream_done := True\<rparr>"
    using ended shape by (subst pull_step(1)) (simp_all add: wants_def)
  moreover have "pull sz (with_rx g' s') = with_rx g' s'" using ended by (intro pull_stop) simp
  ultimately show ?thesis
    using ended shape assms(2) with_rx_recv [of s' "[]" "[]" g s] by (simp add: with_rx_upd attached_def)
qed

lemma read_step_rank: "read_step sz (g, s) (g', s') \<Longrightarrow> live_rank s' < live_rank s"
  by (erule read_stepE) (auto intro: live_step_rank live_step.intros)

lemma read_progress:
  assumes "wants sz g" and "attached g s"
  shows "\<exists>t. read_step sz (g, s) t"
proof -
  have "rx_open s" and "\<not> eof_seen s" using assms by (auto simp: attached_def wants_def)
  then obtain s' where "live_step s s'" using live_progress by blast
  then show ?thesis
  proof cases
    case 1
    then show ?thesis by (blast intro: read_step.work)
  next
    case 2
    show ?thesis
    proof (cases "chan s")
      case (Cons x c)
      with assms(1) 2 show ?thesis by (cases x) (blast intro: read_step.bytes read_step.failure)+
    qed (use assms(1) 2 in \<open>blast intro: read_step.ended\<close>)
  qed
qed

lemma read_run:
  assumes "(read_step sz ^^ n) (g, s) (g', s')" and "attached g s"
  shows "attached g' s' \<and> pull sz (with_rx g' s') = pull sz (with_rx g s) \<and> live_rank s' + n \<le> live_rank s"
  using assms(1)
proof (induction n arbitrary: g' s')
  case 0
  then show ?case using assms(2) by simp
next
  case (Suc n)
  obtain g1 s1 where 1: "(read_step sz ^^ n) (g, s) (g1, s1)" "read_step sz (g1, s1) (g', s')"
    using Suc.prems by fastforce
  note ih = Suc.IH [OF 1(1)]
  with read_step_pull [OF 1(2)] read_step_rank [OF 1(2)] show ?case by simp
qed

text \<open>A reachable pipe that nobody cancelled is attached, as long as the handle notices its end.\<close>

lemma reach_attached:
  assumes "prod_reach res s" and "\<not> cancel_called s" and "eof_seen s \<longrightarrow> upstream_done g"
  shows "attached g s" and "received s @ rx (with_rx g s) = task_items res"
  using prod_reach_inv [OF assms(1)] assms(2,3) by (auto simp: prod_inv_def attached_def)

end
