(* ===== verification/TailQuery.thy ===== *)
theory TailQuery
  imports FsProps
begin

text \<open>
  The statement of the tail query, from the answer to the question for the table's keys to the text
  that is sent.
\<close>

section \<open>The key\<close>

text \<open>The first key that is not blank, if the server named one.\<close>

definition reported_key :: "'j json_api \<Rightarrow> query_error + string \<Rightarrow> string option" where
  "reported_key j answer =
     (case answer of
        Inl _ \<Rightarrow> None
      | Inr body \<Rightarrow>
          (case js_from_str j (case str_lines body of l # _ \<Rightarrow> l | [] \<Rightarrow> []) of
             None \<Rightarrow> None
           | Some v \<Rightarrow> find (\<lambda>k. str_trim k \<noteq> [])
               [js_str_or_empty j v ''primary_key'', js_str_or_empty j v ''sorting_key'']))"

lemma tail_order_key:
  "tail_order_of j answer = (case reported_key j answer of Some k \<Rightarrow> k | None \<Rightarrow> ''tuple()'')"
  by (auto simp: tail_order_of_def reported_key_def Let_def split: sum.splits option.splits)

lemma tail_order_not_blank:
  "str_trim (tail_order_of j res) \<noteq> [] \<and>
   (tail_order_of j res = ''tuple()'' \<or>
    (\<exists>body v k. res = Ok body \<and> js_from_str j (case str_lines body of l # _ \<Rightarrow> l | [] \<Rightarrow> []) = Some v
       \<and> k \<in> {''primary_key'', ''sorting_key''} \<and> tail_order_of j res = js_str_or_empty j v k))"
proof -
  have "str_trim ''tuple()'' \<noteq> []" by code_simp
  then show ?thesis using tail_order_cases [of j res] by metis
qed

lemma order_clause_tuple: "order_clause ''tuple()'' = ''tuple() DESC''"
  by code_simp

lemma order_clause_key:
  assumes "list_all column_ok cs" and "cs \<noteq> []"
  shows "order_clause (str_join '', '' cs) = str_join '', '' (map (\<lambda>c. c @ '' DESC'') cs)"
proof (cases "cs = [''tuple()'']")
  case True
  then show ?thesis by (simp add: order_clause_tuple)
qed (use order_clause_columns assms in blast)

section \<open>The text\<close>

lemma ident_no_quote:
  assumes "valid_identifier s"
  shows "BTICK \<notin> set s" "SQUOTE \<notin> set s" "BSLASH \<notin> set s"
proof -
  have "list_all (\<lambda>c. is_ascii_alphanumeric c \<or> c = CHR ''_'' \<or> c = CHR ''-'' \<or> c = CHR ''.'') s"
    using assms by (simp only: valid_identifier_def)
  moreover have "\<not> (is_ascii_alphanumeric c \<or> c = CHR ''_'' \<or> c = CHR ''-'' \<or> c = CHR ''.'')"
    if "c = BTICK \<or> c = SQUOTE \<or> c = BSLASH" for c
    using that by (elim disjE) (simp_all add: is_ascii_alphanumeric_def is_ascii_digit_def byte_of_def)
  ultimately show "BTICK \<notin> set s" "SQUOTE \<notin> set s" "BSLASH \<notin> set s"
    by (auto simp: list_all_iff)
qed

lemma quote_plain:
  assumes "valid_identifier s"
  shows "quote_ident s = BTICK # s @ [BTICK]" "quote_string s = SQUOTE # s @ [SQUOTE]"
  using ident_no_quote [OF assms] by (simp_all add: quote_ident_def quote_string_def str_replace_char_absent)

definition tail_text :: "string \<Rightarrow> string \<Rightarrow> string option \<Rightarrow> string list \<Rightarrow> nat \<Rightarrow> string" where
  "tail_text d t part cols n =
     ''SELECT * FROM `'' @ d @ ''`.`'' @ t @ ''`'' @
     (case part of Some s \<Rightarrow> '' WHERE _partition_id = '' @ SQUOTE # s @ [SQUOTE] | None \<Rightarrow> []) @
     '' ORDER BY '' @ str_join '', '' (map (\<lambda>c. c @ '' DESC'') cols) @
     '' LIMIT '' @ show_nat n @ '' FORMAT TabSeparatedWithNames''"

lemma tail_sql_text:
  assumes "valid_db_or_table d" and "valid_db_or_table t" and "pred_option valid_identifier part"
    and "list_all column_ok cols" and "cols \<noteq> []"
  shows "sql_select_tail d t (str_join '', '' cols) part n = tail_text d t part cols (unat n)"
  using assms order_clause_key [OF assms(4,5)] valid_db_identifier [of d] valid_db_identifier [of t]
  by (cases part) (simp_all add: sql_select_tail_def tail_text_def quote_plain)

lemma opened_tail_text:
  assumes "fs_open x i flags fs w = (Ok fh, fs1, w1)" and "path_of fs i = Ok path" and "resolve path = Ok p"
    and "is_stream_file p" and "tail_enabled (f_tail_cfg fs)"
    and "fst (query_text (x_env x) (f_driver fs) (sql_table_pk (the (p_db p)) (the (p_table p))) w) = answer"
    and "list_all column_ok cols" and "cols \<noteq> []"
    and "reported_key (x_json x) answer = (if cols = [''tuple()''] then None else Some (str_join '', '' cols))"
  shows "\<exists>s tc. fmlookup (handles fs1) fh = Some (HStream s) \<and> sh_tail s = Some tc
    \<and> tail_sql tc = tail_text (the (p_db p)) (the (p_table p)) (plan_part p) cols (unat (tail_rows (f_tail_cfg fs)))"
proof -
  let ?d = "the (p_db p)" and ?t = "the (p_table p)"
  from open_stream_ok [OF assms(1-4)] obtain s where
    s: "fmlookup (handles fs1) fh = Some (HStream s)" "sh_tail s = stream_tail x ?d ?t (plan_part p) fs w"
    by blast
  have "fst (fetch_tail_order_expr x ?d ?t fs w) = tail_order_of (x_json x) answer"
    using assms(6) by (auto simp: fetch_tail_order_expr_def split: prod.splits)
  also have "\<dots> = str_join '', '' cols" using assms(9) by (auto simp: tail_order_key)
  finally have order: "fst (fetch_tail_order_expr x ?d ?t fs w) = str_join '', '' cols" .
  have wf: "valid_db_or_table ?d" "valid_db_or_table ?t" "pred_option valid_identifier (plan_part p)"
    using resolve_wf [OF assms(3)] assms(4)
    by (auto simp: plan_wf_def plan_part_def split: plan_kind.splits)
  show ?thesis
    using s assms(5) tail_sql_text [OF wf assms(7,8)]
    by (auto simp: stream_tail_def tail_sql_def order)
qed

end
