(* ===== verification/Spec2Isabelle.thy ===== *)
theory Spec2Isabelle
  imports Demo HumanBytes ReadmeProps HandleTests FileSpec Listings Reader TailQuery
begin

text \<open>
  A verification development for \<open>clickfs\<close>, a read-only FUSE file system that shows a ClickHouse
  server as directories (databases, tables) and files (\<open>.schema\<close>, \<open>README.md\<close>, \<open>all.tsv\<close> and one
  \<open>.tsv\<close> file for each partition).  The code is in \<open>src/*.rs\<close>.

  How the program works.  \<open>main.rs\<close> checks its arguments, builds an HTTP driver, pings the server
  and mounts a \<open>ClickFs\<close>.  The kernel's requests arrive one at a time at the handlers of \<open>fs.rs\<close>.  An
  inode number leads to a path (\<open>inode.rs\<close>), a path to a query plan (\<open>resolver.rs\<close>), a plan to SQL
  text and an HTTP request (\<open>driver.rs\<close>).  Listings are kept for two seconds (\<open>cache.rs\<close>).  An opened
  table or partition is a \<open>StreamHandle\<close> (\<open>stream.rs\<close>): a spawned task puts the chunks of the answer
  into a channel of eight places, and sequential reads take them out; a read far past the cursor
  fetches the last rows instead and serves them as the end of the file.  Failures become errno
  values (\<open>error.rs\<close>).  \<open>readme.rs\<close> renders the \<open>README.md\<close> of a table.

  The theories, from the bottom up.
    \<^item> \<open>Prelude\<close>: machine integers, byte strings, \<open>Result\<close> as a sum; facts on words and lists.
    \<^item> \<open>RustStr\<close>, \<open>RustPath\<close>: the operations of the standard library on \<open>str\<close> and \<open>Path\<close> that the
      code calls, with their algebra (split and join, show and parse, trim, components and join).
    \<^item> \<open>Errors\<close> (\<open>error.rs\<close>), \<open>Cache\<close> (\<open>cache.rs\<close>), \<open>Inode\<close> (\<open>inode.rs\<close>), \<open>Resolver\<close> (\<open>resolver.rs\<close>),
      \<open>Sql\<close> and \<open>Driver\<close> (\<open>driver.rs\<close>), \<open>SeqSource\<close>, \<open>StreamHandle\<close>, \<open>Producer\<close> and \<open>Reader\<close>
      (\<open>stream.rs\<close>), \<open>Readme\<close> (\<open>readme.rs\<close>), \<open>Fs\<close> (\<open>fs.rs\<close>), \<open>Cli\<close> (\<open>main.rs\<close>): the state of a
      component as a record with the fields of the struct, and one definition per function or handler.
    \<^item> \<open>FsInv\<close>, \<open>FsProps\<close>: what every handler keeps, and what the handlers do; \<open>Listings\<close>: the
      requests that a stored listing answers; \<open>HumanBytes\<close> and \<open>ReadmeProps\<close>: the sizes of the README
      against exact arithmetic, and the README when queries fail; \<open>TailQuery\<close>: the text of the tail query.
    \<^item> \<open>TreeSpec\<close>, \<open>TreeRefine\<close>, \<open>TreeProps\<close>: the directory tree of a catalogue of databases, tables
      and partitions as an abstract machine with one step per request, the proof that the handlers
      simulate it, and its own properties.  \<open>FileSpec\<close>: an opened file as an abstract object, and the
      proof that a session treats each handle as one.
    \<^item> \<open>UnitTests\<close>, \<open>HandleTests\<close>: the unit tests of the repository as definitions over the model, each
      shown to hold.
    \<^item> \<open>Demo\<close>: a small concrete server for the witnesses; this theory: the properties C1 to C40.

  The interfaces are locales: \<open>ttl_store\<close> (a store with expiry, interpreted on the cache),
  \<open>alloc_table\<close> (an allocator of identifiers, interpreted on the inode table), \<open>quoting\<close> (a quoting
  function that a lexer reads back, interpreted on literals and on identifiers), \<open>seq_source\<close> (an
  object that is read from front to back, interpreted on the forward stream and on a file in
  memory), \<open>confined\<close> (a predicate of the world that the program's own requests keep, interpreted on
  the trivial predicate and on a log of requests), and \<open>simulation\<close> (a machine whose steps an abstract
  step relation allows, interpreted on the handlers and the directory tree).

  The outside world.  Code that is not in the repository is a parameter: \<open>env\<close> (a world that answers
  HTTP requests, tells the time and gives random identifiers), \<open>json_api\<close> (the JSON library), the
  hash of the inode table, the \<open>full\<close> predicate of the directory buffer, and the \<open>host\<close> of \<open>Cli\<close>.
  Nothing is assumed about them except where a property names a hypothesis.

  Modelling choices.
    \<^item> A streamed body is the list of its chunks.  \<open>StreamHandle\<close> works on the list of items that the
      channel will deliver; \<open>Producer\<close> proves of the task and the channel, interleaved step by step,
      that what arrives is always an initial part of that list (C22) and, when nobody cancels, all
      of it (C23); \<open>Reader\<close> runs the loop of a read against them and shows that every schedule ends
      with the result that \<open>StreamHandle\<close> computes (C24).  The request of a stream is sent when the
      handle is created.
    \<^item> The inode probe is an unbounded loop: a partial function, proved to return whenever a number
      is free (C19).  Handlers that allocate return an option, \<open>None\<close> for a probe that never ends; C40
      says that this does not happen.
    \<^item> \<open>u64\<close>, \<open>u32\<close>, \<open>i64\<close> values are words, with wrap-around and saturation as in the code; a length
      in memory is a \<open>nat\<close>.  An errno is a constructor named as in \<open>libc\<close>.
    \<^item> The five queries of a README are sent in the order in which \<open>join!\<close> polls them.
    \<^item> \<open>f64\<close> values are fractions rounded to 53 bits.

  What the properties show.  C1 bounds everything that a session can send.  C2 to C4 relate sessions to
  the abstract tree, C5 to C8 give the content of files from the server's answer (C6 through any
  session), C9 to C13 the meaning of handles, inodes and directories, C14 to C21 paths, SQL text and the
  inode table, C22 to C28 streams, their concurrency and tail mode, C29 to C31 the caches, C32 and C33
  errors, C34 the refusal of writes, C35 to C39 start-up, exit codes and the README, and C40 that every
  request is answered.

  Where the program differs from its documents and tests.  A name is looked up in the listing of its
  directory, and the listing of databases leaves out \<open>system\<close>, \<open>INFORMATION_SCHEMA\<close> and
  \<open>information_schema\<close>: their paths give ENOENT (C3, C4, C11), although \<open>tests/e2e.sh\<close> (T04) and
  \<open>TEST_REPORT.md\<close> reach \<open>/db/system\<close> directly.  Listed names with other characters than letters, digits
  and underscores cannot be looked up either (C3).  By C20 every piece between commas of a sorting key
  gets its own \<open>DESC\<close>, so that a key with a function of two arguments is cut inside the call.  The message
  of an exception with a code in the header is cleaned and not taken verbatim (C33).  Only eight
  operations are refused with EROFS by the program itself (C34).  A line feed in the name or the type
  of a column breaks its row of the README (C39).

  Bounds.  C6 assumes that texts and streamed answers are shorter than \<open>2 ^ 62\<close> bytes, so that the tail
  window stays above the data, fewer than \<open>2 ^ 64\<close> requests, so that handle
  numbers do not repeat, and reads of at least one byte.
  C38 is about sizes below \<open>2 ^ 53\<close>, where \<open>f64\<close> is exact.  No definition uses fuel.

  Not modelled: log output; the parser that \<open>clap\<close> derives from the declarations of the command line, but
  for the conflict of two options (its result, a \<open>cli_command\<close> with the declared default values, is the
  input of \<open>cli_run\<close>); the requests that \<open>fs.rs\<close> does not implement and \<open>fuser\<close> answers by itself
  (\<open>symlink\<close>, \<open>link\<close>, \<open>fallocate\<close>, extended attributes and others); the
  stub \<open>main\<close> of a build without the \<open>fuse\<close> feature; the unit test of the cache that starts threads and
  the one that asserts nothing; the shell scripts and documents of the repository.

  Still planned: handlers under concurrent dispatch (\<open>fuser\<close> calls them one at a time today), the sizes
  of the README above \<open>2 ^ 53\<close>, and the abstract tree and the abstract files as one machine.
\<close>

section \<open>Properties of a session\<close>

text \<open>C1: Whatever the kernel asks during a session and whatever the server answers, every request
  that the file system sends goes to the configured server with the configured credentials, and is
  either one of the program's statements over valid identifiers with the read-only settings
  appended, or the killing of a query of its own; and the state invariant holds at the end.\<close>

theorem session_confined:
  "case fs_run \<lparr>x_env = env_logged e, x_json = j, x_hash = h\<rparr> full reqs
          (clickfs_new d cfg u g t0) (w, []) of
     None \<Rightarrow> True
   | Some (replies, fs', (w', requests)) \<Rightarrow> fs_inv d fs' \<and> list_all (safe_request d) requests"
proof (cases "fs_run \<lparr>x_env = env_logged e, x_json = j, x_hash = h\<rparr> full reqs
    (clickfs_new d cfg u g t0) (w, [])")
  case (Some r)
  obtain replies fs' w' requests where r: "r = (replies, fs', w', requests)"
    using prod_cases4 by blast
  have "log_safe d (w', requests) \<and> fs_inv d fs'"
    by (rule logged.run_I [OF _ clickfs_new_inv _ Some [unfolded r]]) (simp_all add: log_safe_def)
  then show ?thesis using Some r by (simp add: log_safe_def)
qed simp

text \<open>C2: Every session refines the abstract tree: for a server whose successful answers are those of a
  catalogue, the replies to any requests of the kernel, and the numbers they bind, are replies and
  bindings of the tree of that catalogue, whatever the clock, the cache, the hash and the sizes of the
  buffers do, and however often the server fails (never, with \<open>up\<close>).\<close>

theorem session_refines_tree:
  assumes "serves up (x_env x) d cat" and "catalog_ok cat" and "list_all kernel_request reqs"
    and "fs_run x full reqs (clickfs_new d cfg u g t0) w = Some (replies, fs', w')"
  shows "tree_run cat (attr_for_plan (clickfs_new d cfg u g t0)) up (\<exists>a d. full a d)
    tree_root reqs replies (table_names (inodes fs'))"
  using run_rel [OF assms] by (auto simp: tree_rel_def)

theorem session_refines_tree_witness:
  "\<exists>a. tree_run demo_catalog (attr_for_plan demo_new) True False tree_root [ReqLookup 1 ''db'']
     [entry_reply (Ok a)] (table_names demo_table)"
proof -
  obtain a where a: "fs_lookup demo_ext 1 ''db'' demo_new 0 = Some (Ok a, demo_new\<lparr>inodes := demo_table\<rparr>, 0)"
    using demo_lookup_new by blast
  then have "fs_run demo_ext (\<lambda>_ _. False) [ReqLookup 1 ''db''] demo_new 0 =
      Some ([entry_reply (Ok a)], demo_new\<lparr>inodes := demo_table\<rparr>, 0)" by simp
  from session_refines_tree [OF _ demo_catalog_ok _ this [unfolded demo_new_def]] demo_serves
  show ?thesis by (auto simp: demo_ext_def demo_new_def plain_name_def)
qed

text \<open>C3: At any time of a session with such a server that answers, looking up a name in a directory succeeds
  exactly when listing the directory shows the name and its characters are those that the resolver
  admits there; it then gives the number and the kind that the listing shows, and ENOENT otherwise.
  So a listed name such as \<open>my-db\<close> is not found, and neither is an unlisted one such as \<open>system\<close>.\<close>

theorem lookup_iff_listed:
  assumes "serves True (x_env x) d cat" and "catalog_ok cat" and "list_all kernel_request reqs"
    and "fs_run x full reqs (clickfs_new d cfg u g t0) w = Some (replies, fs, w1)"
    and "fs_readdir x (\<lambda>_ _. False) i 0 fs w2 = Some (Ok out, fs1, w3)"
    and "path_of fs i = Ok path" and "resolve path = Ok p"
    and "entry_name n" and "fs_lookup x i n fs1 w4 = Some (res, fs2, w5)"
  shows "case res of
      Inl err \<Rightarrow> err = ENOENT \<and> \<not> (n \<in> de_name ` set out \<and> admits p n)
    | Inr a \<Rightarrow> n \<in> de_name ` set out \<and> admits p n \<and>
        (\<forall>dent \<in> set out. de_name dent = n \<longrightarrow> fa_ino a = de_ino dent \<and> fa_kind a = de_kind dent)"
proof -
  note all = serves_no_all [OF assms(1)]
  obtain nd where nd: "tree_run cat (attr_for_plan (clickfs_new d cfg u g t0)) True (\<exists>a d. full a d)
      tree_root reqs replies nd"
    and R: "tree_rel True (x_env x) d cat (attr_for_plan (clickfs_new d cfg u g t0)) nd fs"
    using run_rel [OF assms(1-4)] by blast
  show ?thesis
    using lookup_agrees [OF R nodes_in_run [OF nd all nodes_in_root] all assms(5-9)] .
qed

theorem lookup_iff_listed_witness:
  "\<exists>out fs1 a. fs_readdir demo_ext (\<lambda>_ _. False) 1 0 demo_new 0 = Some (Ok out, fs1, 0)
     \<and> fs_lookup demo_ext 1 ''db'' fs1 0 = Some (Ok a, fs1, 0) \<and> ''db'' \<in> de_name ` set out"
proof -
  have "inodes demo_new = inode_new" by (simp add: demo_new_def clickfs_new_def)
  then obtain out where
    out: "fs_readdir demo_ext (\<lambda>_ _. False) 1 0 demo_new 0 = Some (Ok out, demo_new\<lparr>inodes := demo_table\<rparr>, 0)"
    by (simp add: fs_readdir_def demo_root demo_resolve_root dir_entries_def dots_def demo_db demo_alloc_db)
  obtain a where a: "fs_lookup demo_ext 1 ''db'' (demo_new\<lparr>inodes := demo_table\<rparr>) 0 =
      Some (Ok a, demo_new\<lparr>inodes := demo_table\<rparr>, 0)"
    using demo_lookup by blast
  have run: "fs_run demo_ext (\<lambda>_ _. False) []
      (clickfs_new demo_driver \<lparr>tail_enabled = False, tail_rows = 10\<rparr> 0 0 0) 0 = Some ([], demo_new, 0)"
    by (simp add: demo_new_def)
  have srv: "serves True (x_env demo_ext) demo_driver demo_catalog"
    using demo_serves by (simp add: demo_ext_def)
  have "entry_name ''db''" by code_simp
  from lookup_iff_listed [OF srv demo_catalog_ok _ run out demo_root demo_resolve_root this a] out a
  show ?thesis by auto
qed

text \<open>C4: No session reaches an object beside the listings of the server, also when the server fails at
  times: for a server whose successful answers are those of a catalogue, every inode number that is
  known at the end of a session and denotes an object of a database denotes one of a listed database,
  and of a listed table when it has one.  The list of databases leaves out \<open>system\<close> and
  \<open>INFORMATION_SCHEMA\<close>, so nothing in them is ever reached, against the end-to-end tests.\<close>

theorem session_stays_listed:
  assumes "serves up (x_env x) d cat" and "catalog_ok cat" and "no_all cat" and "list_all kernel_request reqs"
    and "fs_run x full reqs (clickfs_new d cfg u g t0) w = Some (replies, fs, w')"
    and "path_of fs i = Ok path" and "resolve path = Ok p" and "p_db p = Some b"
  shows "b \<in> set (databases cat) \<and> (\<forall>t. p_table p = Some t \<longrightarrow> t \<in> set (tables_of cat b))"
  using assms by (rule run_listed)

theorem session_stays_listed_witness:
  "\<exists>replies fs w' b. fs_run demo_ext (\<lambda>_ _. False) [ReqLookup 1 ''db'', ReqLookup 202 ''t''] demo_new 0 =
       Some (replies, fs, w')
     \<and> path_of fs 203 = Ok ''/db/t'' \<and> b \<in> set (databases demo_catalog)"
proof -
  obtain replies fs w' where run: "fs_run demo_ext (\<lambda>_ _. False) [ReqLookup 1 ''db'', ReqLookup 202 ''t''] demo_new 0 =
      Some (replies, fs, w')" and path: "path_of fs 203 = Ok ''/db/t''"
    using demo_run_t by blast
  have res: "resolve ''/db/t'' = Ok (mk_plan ListTables (Some ''t'') None)" by code_simp
  have srv: "serves True (x_env demo_ext) demo_driver demo_catalog"
    using demo_serves by (simp add: demo_ext_def)
  have "list_all kernel_request [ReqLookup 1 ''db'', ReqLookup 202 ''t'']" by code_simp
  from session_stays_listed [OF srv demo_catalog_ok serves_no_all [OF srv] this run [unfolded demo_new_def] path res]
  have "''t'' \<in> set (databases demo_catalog)" by simp
  with run path show ?thesis by blast
qed

text \<open>C5: Reading an opened table or partition file from the front, with any buffer sizes and enough
  reads, delivers exactly the bytes of the server's answer to the statement of the plan that the
  path denotes, up to the first failure, and then the errno of that failure.\<close>

theorem stream_file_content:
  assumes "fs_open x i flags fs w = (Ok fh, fs1, w1)" and "path_of fs i = Ok path"
    and "resolve path = Ok p" and "is_stream_file p"
  shows "\<exists>res w0 q. query_stream_with_id (x_env x) (f_driver fs) (plan_sql p) (Some q) w0 = (res, w1)
    \<and> (\<forall>ns. list_all ((<) 0) ns \<and> length (answer_bytes res) < length ns
           \<and> length (answer_bytes res) < 2 ^ 63 \<longrightarrow>
         (\<exists>fs2. fs_cat (x_env x) fh 0 ns fs1 w1 =
            (answer_bytes res, map_option query_errno (answer_error res), fs2, w1)))"
  using assms by (rule streamed_content)

theorem stream_file_content_witness:
  "\<exists>fs1 w1 fs2. fs_open demo_ext 100 0 (demo_fs ''/db/d/t/all.tsv'') 0 = (Ok 1, fs1, w1)
     \<and> fs_cat demo_env 1 0 [1, 4, 4] fs1 w1 = (''ab'', None, fs2, w1)"
proof -
  let ?fs = "demo_fs ''/db/d/t/all.tsv''"
  have path: "path_of ?fs 100 = Ok ''/db/d/t/all.tsv''"
    by (simp add: path_of_def inode_lookup_def demo_fs_def)
  have res: "resolve ''/db/d/t/all.tsv'' = Ok (mk_plan StreamAll (Some ''d'') (Some ''t''))"
    by code_simp
  have "fst (fs_open demo_ext 100 0 ?fs 0) = Ok 1"
    by (simp add: fs_open_def path res) (auto simp: demo_open_defs dest!: apfst_eqD split: prod.splits)
  then obtain fs1 w1 where op: "fs_open demo_ext 100 0 ?fs 0 = (Ok 1, fs1, w1)"
    by (metis prod.collapse)
  from stream_file_content [OF op path res] obtain r w0 q where
    r: "query_stream_with_id demo_env (f_driver ?fs) (plan_sql (mk_plan StreamAll (Some ''d'') (Some ''t'')))
          (Some q) w0 = (r, w1)"
      "list_all ((<) 0) ns \<and> length (answer_bytes r) < length ns \<and> length (answer_bytes r) < 2 ^ 63 \<Longrightarrow>
         \<exists>fs2. fs_cat demo_env 1 0 ns fs1 w1 =
            (answer_bytes r, map_option query_errno (answer_error r), fs2, w1)" for ns
    by (auto simp: demo_ext_def)
  have "r = Ok [Ok ''a'', Ok ''b'']" using demo_stream r(1) by (metis fst_conv)
  with op r(2) [of "[1, 4, 4]"] show ?thesis
    by (auto simp: answer_bytes_def answer_error_def)
qed




text \<open>C7: Reading \<open>.schema\<close> or \<open>README.md\<close> from the front delivers exactly the text that was fetched
  or rendered when the file was opened, without any further request.\<close>

theorem special_file_content:
  assumes "fs_open x i flags fs w = (Ok fh, fs1, w1)" and "path_of fs i = Ok path"
    and "resolve path = Ok p" and "is_special_file p"
  shows "\<exists>body. special_text x p fs w = (Ok body, w1)
    \<and> (\<forall>ns. list_all ((<) 0) ns \<and> length body < length ns \<and> length body < 2 ^ 63 \<longrightarrow>
         (\<exists>fs2. fs_cat (x_env x) fh 0 ns fs1 w1 = (body, None, fs2, w1)))"
  using assms by (rule special_content)

theorem special_file_content_witness:
  "\<exists>fs1 w1 fs2. fs_open demo_ext 100 0 (demo_fs ''/db/d/t/.schema'') 0 = (Ok 1, fs1, w1)
     \<and> fs_cat demo_env 1 0 [1, 4, 4] fs1 w1 = (''t'' @ [NL], None, fs2, w1)"
proof -
  let ?fs = "demo_fs ''/db/d/t/.schema''"
  let ?p = "mk_plan DescribeTable (Some ''d'') (Some ''t'')"
  have path: "path_of ?fs 100 = Ok ''/db/d/t/.schema''"
    by (simp add: path_of_def inode_lookup_def demo_fs_def)
  have res: "resolve ''/db/d/t/.schema'' = Ok ?p" by code_simp
  have "fst (fs_open demo_ext 100 0 ?fs 0) = Ok 1"
    by (simp add: fs_open_def path res) (auto simp: demo_open_defs dest!: apfst_eqD split: prod.splits)
  then obtain fs1 w1 where op: "fs_open demo_ext 100 0 ?fs 0 = (Ok 1, fs1, w1)"
    by (metis prod.collapse)
  have "fst (special_text demo_ext ?p ?fs 0) = Ok (''t'' @ [NL])"
    by (simp add: special_text_def demo_open_defs)
  with special_file_content [OF op path res] have
    "list_all ((<) 0) ns \<and> 2 < length ns \<Longrightarrow>
       \<exists>fs2. fs_cat demo_env 1 0 ns fs1 w1 = (''t'' @ [NL], None, fs2, w1)" for ns
    by (auto simp: demo_ext_def)
  from this [of "[1, 4, 4]"] op show ?thesis by auto
qed

text \<open>C8: The first read far past the cursor of a streamed file fetches the last rows and serves the
  answer with its data lines reversed, aligned so that its last byte is the last byte before the
  pseudo end of the file.\<close>

theorem tail_content:
  assumes "fmlookup (handles fs) fh = Some (HStream s)" and "need_materialize s offset"
    and "sh_tail s = Some tc" and "query_text e (sh_driver s) (tail_sql tc) w = (Ok body, w')"
    and "length body < 2 ^ 63" and "unat offset + length body = 2 ^ 63 - 1 + k" and "k < length body"
  shows "\<exists>fs'. fs_read e fh offset sz fs w =
      (Ok (take (unat sz) (drop k (reverse_tsv_rows body))), fs', w')"
  using assms by (rule tail_first_read)

theorem tail_content_witness:
  "\<exists>fs'. fs_read demo_env 7 9223372036854775805 10 (demo_new\<lparr>handles := fmupd 7 (HStream demo_stream_handle) fmempty\<rparr>) 0
     = (Ok (''t'' @ [NL]), fs', 1)"
proof -
  let ?fs = "demo_new\<lparr>handles := fmupd 7 (HStream demo_stream_handle) fmempty\<rparr>"
  let ?tc = "the (sh_tail demo_stream_handle)"
  have h: "fmlookup (handles ?fs) 7 = Some (HStream demo_stream_handle)" by simp
  have need: "need_materialize demo_stream_handle 9223372036854775805"
    by (simp add: need_materialize_def demo_stream_handle_def inner_new_def TAIL_TRIGGER_GAP_def
        sat_add_def)
  have tc: "sh_tail demo_stream_handle = Some ?tc" by (simp add: demo_stream_handle_def)
  have q: "query_text demo_env (sh_driver demo_stream_handle) (tail_sql ?tc) 0 = (Ok (''t'' @ [NL]), 1)"
    by (simp add: query_text_def demo_env_def)
  have rev: "reverse_tsv_rows (''t'' @ [NL]) = ''t'' @ [NL]" by code_simp
  show ?thesis
    using tail_content [OF h need tc q, of 0 10] rev by simp
qed

text \<open>C9: During a session a file handle number is given out at most once.\<close>

theorem handles_fresh:
  assumes "fs_run x full reqs fs w = Some (replies, fs', w')"
    and "unat (fh_counter fs) + length reqs < 2 ^ 64"
  shows "distinct (opened replies)"
  using run_opened [OF assms] by simp

theorem handles_fresh_witness:
  "\<exists>r1 r2 fs' w'. fs_run demo_ext (\<lambda>_ _. False) [ReqOpen 100 0, ReqOpen 100 0] (demo_fs ''/db/d/t/.schema'') 0 =
       Some ([r1, r2], fs', w') \<and> opened [r1, r2] = [1, 2] \<and> distinct (opened [r1, r2])"
proof -
  let ?fs = "demo_fs ''/db/d/t/.schema''"
  obtain fs' w' where run: "fs_run demo_ext (\<lambda>_ _. False) [ReqOpen 100 0, ReqOpen 100 0] ?fs 0 =
      Some ([open_reply (Ok 1), open_reply (Ok 2)], fs', w')"
    using demo_open_twice by blast
  have "unat (fh_counter ?fs) + length [ReqOpen 100 0, ReqOpen 100 0] < 2 ^ 64"
    by (simp add: demo_fs_def demo_new_def clickfs_new_def)
  from handles_fresh [OF run this] run show ?thesis by (auto simp: open_reply_def)
qed

text \<open>C10: An inode number that \<open>readdir\<close> reported for a name is the number that a lookup of this name
  in that directory gives, at any later time of the session.\<close>

theorem readdir_then_lookup:
  assumes "inode_wf (inodes fs)" and "fs_readdir x full i offset fs w = Some (Ok out, fs1, w1)"
    and "dent \<in> set out" and "de_name dent \<noteq> ''.''" and "de_name dent \<noteq> ''..''"
    and "fs_run x full' reqs fs1 w2 = Some (rs, fs2, w3)"
    and "fs_lookup x i (de_name dent) fs2 w4 = Some (Ok a, fs3, w5)"
  shows "fa_ino a = de_ino dent"
  using assms by (rule readdir_lookup_same_ino)

theorem readdir_then_lookup_witness:
  "\<exists>out fs1 a. fs_readdir demo_ext (\<lambda>_ _. False) 1 2 demo_new 0 = Some (Ok [out], fs1, 0)
     \<and> fs_lookup demo_ext 1 ''db'' fs1 0 = Some (Ok a, fs1, 0) \<and> fa_ino a = de_ino out"
proof -
  obtain out where out: "fs_readdir demo_ext (\<lambda>_ _. False) 1 2 demo_new 0 =
      Some (Ok [out], demo_new\<lparr>inodes := demo_table\<rparr>, 0)" "de_name out = ''db''"
    using demo_readdir by blast
  obtain a where a: "fs_lookup demo_ext 1 ''db'' (demo_new\<lparr>inodes := demo_table\<rparr>) 0 =
      Some (Ok a, demo_new\<lparr>inodes := demo_table\<rparr>, 0)"
    using demo_lookup by blast
  have wf: "inode_wf (inodes demo_new)" by (simp add: demo_new_def clickfs_new_def inode_new_wf)
  have "fa_ino a = de_ino out"
    by (rule readdir_then_lookup [OF wf out(1), where reqs = "[]" and full' = "\<lambda>_ _. False"])
      (use out a in auto)
  with out a show ?thesis by blast
qed

text \<open>C11: A lookup of a name that the resolver rejects gives ENOENT and asks nobody.  For any other name it
  succeeds exactly when the parent's listing (cached or fetched) contains it: a listed name gets its
  inode and the attributes of its plan, an unlisted one ENOENT (also a database such as \<open>system\<close>, which
  the statement for the list leaves out), and a failed listing gives the errno of its error.\<close>

theorem lookup_follows_listing:
  assumes "path_of fs parent = Ok pp" and "utf8_valid name"
  shows "case resolve (path_join pp name) of
      Inl _ \<Rightarrow> fs_lookup x parent name fs w = Some (Err ENOENT, fs, w)
    | Inr p \<Rightarrow> (case listed (x_env x) p fs w of
        Inl err \<Rightarrow> \<exists>fs' w'. fs_lookup x parent name fs w = Some (Err (to_errno err), fs', w')
          \<and> same_but_caches fs fs'
      | Inr False \<Rightarrow> \<exists>fs' w'. fs_lookup x parent name fs w = Some (Err ENOENT, fs', w')
          \<and> same_but_caches fs fs'
      | Inr True \<Rightarrow> (case inode_allocate (x_hash x) (path_join pp name) (inodes fs) of
            Some (i, t) \<Rightarrow> \<exists>fs' w'. fs_lookup x parent name fs w = Some (Ok (attr_for_plan fs i p), fs', w')
          | None \<Rightarrow> fs_lookup x parent name fs w = None))"
proof (cases "resolve (path_join pp name)")
  case (Inl err)
  then show ?thesis using lookup_not_resolved [OF assms Inl, of x w] by simp
next
  case (Inr p)
  then show ?thesis using lookup_listed [OF assms Inr, of x w] by simp
qed

theorem lookup_follows_listing_witness:
  "\<exists>fs' w'. fs_lookup demo_ext 1 ''db'' demo_new 0 =
     Some (Ok (dir_attr demo_new 202), fs', w')"
proof -
  have "inodes demo_new = inode_new" by (simp add: demo_new_def clickfs_new_def)
  then show ?thesis
    using lookup_follows_listing [OF demo_root demo_db(4), of demo_ext 0]
    by (simp add: demo_db demo_alloc_db listed_def attr_for_plan_def)
qed

text \<open>C12: After a successful lookup, \<open>getattr\<close> on the inode reports the same attributes.\<close>

theorem lookup_then_getattr:
  assumes "inode_wf (inodes fs)" and "fs_lookup x parent name fs w = Some (Ok a, fs', w')"
  shows "fs_getattr (fa_ino a) fs' = Ok a"
  using assms by (rule lookup_getattr)

theorem lookup_then_getattr_witness:
  "\<exists>a. fs_getattr 202 (demo_new\<lparr>inodes := demo_table\<rparr>) = Ok a \<and> fa_ino a = 202"
proof -
  obtain a where a: "fs_lookup demo_ext 1 ''db'' (demo_new\<lparr>inodes := demo_table\<rparr>) 0 =
      Some (Ok a, demo_new\<lparr>inodes := demo_table\<rparr>, 0)" "fa_ino a = 202"
    using demo_lookup by blast
  have wf: "inode_wf (inodes (demo_new\<lparr>inodes := demo_table\<rparr>))" by (simp add: demo_table_wf)
  show ?thesis using lookup_then_getattr [OF wf a(1)] a(2) by auto
qed

text \<open>C13: A directory page holds the next entries of the listing in order, and the offset stored with
  an entry is where the next page continues; a page that never fills up holds all of them.\<close>

theorem readdir_pages:
  assumes "inode_wf (inodes fs)" and "fs_readdir x full i offset fs w = Some (Ok out, fs', w')"
  shows "\<exists>path p es. path_of fs i = Ok path \<and> resolve path = Ok p
    \<and> fst (dir_entries (x_env x) p fs w) = Ok es
    \<and> map (\<lambda>d. (de_kind d, de_name d)) out = take (length out) (drop (unat offset) es)
    \<and> (\<forall>j < length out. de_offset (out ! j) = offset + word_of_nat (j + 1))
    \<and> ((\<forall>a d. \<not> full a d) \<longrightarrow> length out = length es - unat offset)"
  using assms by (rule FsProps.readdir_page)

theorem readdir_pages_witness:
  "\<exists>out fs'. fs_readdir demo_ext (\<lambda>_ _. False) 1 2 demo_new 0 = Some (Ok [out], fs', 0)
     \<and> de_offset out = 3"
proof -
  obtain out where out: "fs_readdir demo_ext (\<lambda>_ _. False) 1 2 demo_new 0 =
      Some (Ok [out], demo_new\<lparr>inodes := demo_table\<rparr>, 0)"
    using demo_readdir by blast
  have wf: "inode_wf (inodes demo_new)" by (simp add: demo_new_def clickfs_new_def inode_new_wf)
  show ?thesis using readdir_pages [OF wf out] out by auto
qed

section \<open>Properties of paths, statements and inodes\<close>

text \<open>C14: Resolving the path of a well-formed plan gives the plan back.\<close>

theorem resolve_roundtrip:
  assumes "plan_wf p"
  shows "resolve (plan_path p) = Ok p"
  using assms by (rule resolve_plan_path)

theorem resolve_roundtrip_witness:
  "resolve ''/db/d/t/2024-01.tsv'' = Ok (mk_plan (StreamPartition ''2024-01'') (Some ''d'') (Some ''t''))"
proof -
  have wf: "plan_wf (mk_plan (StreamPartition ''2024-01'') (Some ''d'') (Some ''t''))"
    by (simp add: plan_wf_def valid_identifier_def valid_db_or_table_def is_ascii_alphanumeric_def
        is_ascii_digit_def byte_of_def)
  show ?thesis
    using resolve_roundtrip [OF wf] by (simp add: plan_path_def plan_names_def)
qed

text \<open>C15: A path that resolves denotes a well-formed plan, whose canonical path it equals when it is
  absolute and its names are UTF-8; a path with a parent component never resolves.\<close>

theorem resolve_sound:
  assumes "resolve path = Ok p"
  shows "plan_wf p \<and> ParentDir \<notin> set (components path)
    \<and> (prefix ''/'' path \<and> (\<forall>n. Normal n \<in> set (components path) \<longrightarrow> utf8_valid n)
       \<longrightarrow> path_eq path (plan_path p))"
  using resolve_wf [OF assms] resolve_path_eq [OF assms] resolve_parent [of path] assms by auto

theorem resolve_sound_witness:
  "path_eq ''//db/d/./t/'' (plan_path (mk_plan ListPartitions (Some ''d'') (Some ''t'')))"
proof -
  have res: "resolve ''//db/d/./t/'' = Ok (mk_plan ListPartitions (Some ''d'') (Some ''t''))"
    by code_simp
  have names: "components ''//db/d/./t/'' = [RootDir, Normal ''db'', Normal ''d'', Normal ''t'']"
    by code_simp
  have "utf8_valid ''db''" "utf8_valid ''d''" "utf8_valid ''t''" by code_simp+
  then show ?thesis using resolve_sound [OF res] by (auto simp: names)
qed

text \<open>C16: The names of a resolved path cannot escape their quotes: read back, with the server's lexical rules,
  from any of the statements that the file system builds for the object (all that C1 admits but the
  list of databases, which has no name in it), they are the names in the path, and nothing else of
  the statement changes.  The ORDER BY text of the tail query is the server's and not quoted.\<close>

theorem statements_keep_names:
  assumes "resolve path = Ok p" and "p_db p = Some d"
  shows "(\<exists>rest. path_comps path = ''db'' # d # rest)
    \<and> scan u list_tables_template (sql_list_tables d) = Some [d]
    \<and> (\<forall>t. p_table p = Some t \<longrightarrow>
          (\<exists>rest. path_comps path = ''db'' # d # t # rest)
        \<and> scan u list_partitions_template (sql_list_partitions d t) = Some [d, t]
        \<and> scan u describe_template (sql_describe d t) = Some [d, t]
        \<and> scan u stats_template (sql_stats d t) = Some [d, t]
        \<and> scan u columns_template (sql_columns d t) = Some [d, t]
        \<and> scan u count_template (sql_count d t) = Some [d, t]
        \<and> scan u sample_template (sql_sample d t) = Some [d, t]
        \<and> scan u table_pk_template (sql_table_pk d t) = Some [d, t]
        \<and> scan u stream_all_template (sql_stream_all d t) = Some [d, t]
        \<and> (\<forall>s. scan u stream_partition_template (sql_stream_partition d t s) = Some [d, t, s])
        \<and> (\<forall>key n. scan u (tail_template False (order_clause key) (unat n)) (sql_select_tail d t key None n) =
              Some [d, t])
        \<and> (\<forall>s key n. scan u (tail_template True (order_clause key) (unat n)) (sql_select_tail d t key (Some s) n) =
              Some [d, t, s]))"
proof -
  have wf: "plan_wf p" using assms(1) by (rule resolve_wf)
  have plain: "BSLASH \<notin> set s" if "valid_db_or_table s" for s
    using ident_no_quote [OF valid_db_identifier [OF that]] by simp
  have d: "BSLASH \<notin> set d"
    using wf assms(2) plain by (auto simp: plan_wf_def split: plan_kind.splits)
  have t: "BSLASH \<notin> set t" if "p_table p = Some t" for t
    using wf that plain by (auto simp: plan_wf_def split: plan_kind.splits)
  note names = resolve_names [OF assms(1)] plan_wf_def plan_names_def Let_def
  have "\<exists>rest. path_comps path = ''db'' # d # rest"
    using wf assms(2) by (auto simp: names split: plan_kind.splits)
  moreover have "\<exists>rest. path_comps path = ''db'' # d # t # rest" if "p_table p = Some t" for t
    using wf assms(2) that by (auto simp: names split: plan_kind.splits)
  ultimately show ?thesis
    using scan_idents [OF d t] scan_literals scan_tail [OF d t, where part = None]
      scan_tail [OF d t, where part = "Some s" for s] by auto
qed

theorem statements_keep_names_witness:
  "scan id stream_partition_template (sql_stream_partition ''d'' ''t'' ''2024'') = Some [''d'', ''t'', ''2024'']"
proof -
  have "resolve ''/db/d/t/2024.tsv'' = Ok (mk_plan (StreamPartition ''2024'') (Some ''d'') (Some ''t''))"
    by code_simp
  from statements_keep_names [OF this, of "''d''" id] show ?thesis by simp
qed

text \<open>C17: Every string survives quoting as a literal: the lexer reads it back whole and stops at the
  end of the literal, whatever follows (other than a quote) and whatever the unknown escapes are.\<close>

theorem literal_roundtrip:
  assumes "rest = [] \<or> hd rest \<noteq> SQUOTE"
  shows "lex_quoted u SQUOTE (quote_string s @ rest) = Some (s, rest)"
  by (rule lit.lex_quote) (use assms in simp_all)

theorem literal_roundtrip_witness:
  "lex_quoted id SQUOTE (quote_string [SQUOTE, BSLASH, CHR ''x''] @ '' ASYNC'') =
     Some ([SQUOTE, BSLASH, CHR ''x''], '' ASYNC'')"
  by (rule literal_roundtrip) simp

text \<open>C18: Inodes are stable and injective: allocating two paths one after the other gives the same
  number exactly when the paths are equal, and the number leads back to the path.\<close>

theorem inodes_injective:
  assumes "inode_wf t" and "inode_allocate h p t = Some (i, t')" and "inode_allocate h q t' = Some (j, t'')"
  shows "(i = j \<longleftrightarrow> path_eq p q) \<and> inode_wf t''
    \<and> (\<exists>p'. inode_lookup t'' i = Some p' \<and> path_eq p' p)
    \<and> (\<exists>q'. inode_lookup t'' j = Some q' \<and> path_eq q' q)"
proof -
  have t': "inode_wf t'" using assms(1,2) by (rule inode_allocate_wf)
  obtain p' where "inode_lookup t' i = Some p'" "path_eq p' p"
    using inode_allocate_lookup [OF assms(1,2)] by blast
  with inode_allocate_frame [OF t' assms(3)] inode_allocate_lookup [OF t' assms(3)]
    inode_allocate_wf [OF t' assms(3)] ino.alloc_stable [OF assms] ino.alloc_distinct [OF assms]
  show ?thesis by blast
qed

theorem inodes_injective_witness:
  "inode_wf demo_table \<and> (202 = (202 :: u64) \<longleftrightarrow> path_eq ''/db'' ''/db'')"
proof -
  have again: "inode_allocate (x_hash demo_ext) ''/db'' demo_table = Some (202, demo_table)"
    by (rule inode_allocate_known [OF demo_table_wf, of _ "''/db''"])
      (simp_all add: demo_table_def inode_lookup_def path_eq_def)
  show ?thesis using inodes_injective [OF inode_new_wf demo_alloc_db again] by simp
qed

text \<open>C19: The unbounded probe of an allocation returns as long as any number other than the root's is
  free, whatever the hash, the wrap-around and the bump counter.\<close>

theorem allocate_returns:
  assumes "f \<noteq> INO_ROOT" and "fmlookup (forward t) f = None"
  shows "\<exists>r. inode_allocate h path t = Some r"
proof (cases "fmlookup (reverse t) (components path)")
  case None
  then show ?thesis
    using probe_terminates [of f t path "max (inode_hash h path) 100"] assms
    by (simp add: inode_allocate_def INO_ROOT_def)
qed (simp add: inode_allocate_def)

theorem allocate_returns_witness: "\<exists>r. inode_allocate (\<lambda>_. 0) ''/db'' inode_new = Some r"
  by (rule allocate_returns [of 5]) (simp_all add: INO_ROOT_def inode_new_def)

text \<open>C20: The ORDER BY clause of the tail query descends on every column of a comma-separated key.\<close>

theorem order_clause_descends:
  assumes "list_all column_ok cs" and "cs \<noteq> []" and "cs \<noteq> [''tuple()'']"
  shows "order_clause (str_join '', '' cs) = str_join '', '' (map (\<lambda>c. c @ '' DESC'') cs)"
  using assms by (rule order_clause_columns)

theorem order_clause_descends_witness: "order_clause ''a, b'' = ''a DESC, b DESC''"
  using order_clause_descends [of "[''a'', ''b'']"] by (simp add: column_ok_def printable_def byte_of_def)

text \<open>C21: Opening a table or partition file in tail mode fixes the statement that a tail read sends: it
  selects from the table of the path, restricted to the partition of the path, in descending order of
  every column of the first key that the server names (of \<open>tuple()\<close> when it names none or does not
  answer), with the configured limit.\<close>

theorem tail_statement:
  assumes "fs_open x i flags fs w = (Ok fh, fs1, w1)" and "path_of fs i = Ok path" and "resolve path = Ok p"
    and "is_stream_file p" and "tail_enabled (f_tail_cfg fs)"
    and "fst (query_text (x_env x) (f_driver fs) (sql_table_pk (the (p_db p)) (the (p_table p))) w) = answer"
    and "list_all column_ok cols" and "cols \<noteq> []"
    and "reported_key (x_json x) answer = (if cols = [''tuple()''] then None else Some (str_join '', '' cols))"
  shows "\<exists>s tc. fmlookup (handles fs1) fh = Some (HStream s) \<and> sh_tail s = Some tc
    \<and> tail_sql tc = tail_text (the (p_db p)) (the (p_table p)) (plan_part p) cols (unat (tail_rows (f_tail_cfg fs)))"
  using assms by (rule opened_tail_text)

theorem tail_statement_witness:
  "\<exists>fs1 w1 s tc. fs_open demo_ext 100 0 ((demo_fs ''/db/d/t/p1.tsv'')\<lparr>f_tail_cfg := \<lparr>tail_enabled = True, tail_rows = 10\<rparr>\<rparr>) 0
       = (Ok 1, fs1, w1)
     \<and> fmlookup (handles fs1) 1 = Some (HStream s) \<and> sh_tail s = Some tc
     \<and> tail_sql tc = ''SELECT * FROM `d`.`t` WHERE _partition_id = '' @ SQUOTE # ''p1'' @ SQUOTE #
         '' ORDER BY tuple() DESC LIMIT 10 FORMAT TabSeparatedWithNames''"
proof -
  let ?fs = "(demo_fs ''/db/d/t/p1.tsv'')\<lparr>f_tail_cfg := \<lparr>tail_enabled = True, tail_rows = 10\<rparr>\<rparr>"
  let ?p = "mk_plan (StreamPartition ''p1'') (Some ''d'') (Some ''t'')"
  have path: "path_of ?fs 100 = Ok ''/db/d/t/p1.tsv''"
    by (simp add: path_of_def inode_lookup_def demo_fs_def)
  have res: "resolve ''/db/d/t/p1.tsv'' = Ok ?p" by code_simp
  have "fst (fs_open demo_ext 100 0 ?fs 0) = Ok 1"
    by (simp add: fs_open_def path res) (auto simp: demo_open_defs dest!: apfst_eqD split: prod.splits)
  then obtain fs1 w1 where op: "fs_open demo_ext 100 0 ?fs 0 = (Ok 1, fs1, w1)"
    by (metis prod.collapse)
  have str: "is_stream_file ?p" and tail: "tail_enabled (f_tail_cfg ?fs)" by (simp_all add: mk_plan_def)
  have key: "reported_key (x_json demo_ext) answer = None" for answer
    by (simp add: reported_key_def demo_ext_def demo_json_def split: sum.split)
  have col: "list_all column_ok [''tuple()'']" by code_simp
  have ten: "show_nat 10 = ''10''" by code_simp
  from tail_statement [OF op path res str tail refl col] obtain s tc where
    "fmlookup (handles fs1) 1 = Some (HStream s)" "sh_tail s = Some tc"
    "tail_sql tc = tail_text ''d'' ''t'' (Some ''p1'') [''tuple()''] 10"
    by (auto simp: key mk_plan_def plan_part_def)
  with op show ?thesis by (simp add: tail_text_def ten)
qed

section \<open>Properties of a stream\<close>

text \<open>C22: However the task and the reader interleave, cancellation included, what the reader has
  received is an initial part of the server's answer (cut at its first error), and the channel
  never holds more than eight items.\<close>

theorem channel_safe:
  assumes "prod_reach res s"
  shows "prefix (received s) (task_items res) \<and> length (chan s) \<le> 8"
  using assms prod_received_prefix prod_chan_bound by blast

theorem channel_safe_witness:
  "prefix (received (prod_init (Ok [Ok ''a'']))) [Ok ''a''] \<and> chan (prod_init (Ok [Ok ''a''])) = []"
  using channel_safe [OF prod_reach.start, of "Ok [Ok ''a'']"] by (simp add: prod_init_def)

text \<open>C23: A run in which nobody cancels has at most three steps for each item of the answer and five
  more, and when it can go no further the reader has received the whole answer and seen its end.\<close>

theorem channel_live:
  assumes "(live_step ^^ n) (prod_init (Ok items)) s"
  shows "n \<le> 3 * length items + 5
    \<and> ((\<nexists>s'. live_step s s') \<longrightarrow> received s = upto_err items \<and> eof_seen s)"
  using live_run_length [OF assms] live_run_complete [OF assms] by auto

theorem channel_live_witness:
  "\<exists>s. (live_step ^^ 6) (prod_init (Ok [Ok ''a''])) s \<and> received s = [Ok ''a''] \<and> eof_seen s"
  using channel_live [OF demo_pipe_run] demo_pipe_run demo_pipe_end by auto

text \<open>C24: A read that runs while the task still fills the channel: with the steps of the loop, the channel
  and the task in any order it ends within a bounded number of steps, it can always go on until it has
  enough, and its outcome is that of reading the list of all items that are still to arrive.\<close>

theorem concurrent_read:
  assumes "prod_reach res s" and "\<not> cancel_called s" and "eof_seen s \<longrightarrow> upstream_done g"
    and "(read_step sz ^^ n) (g, s) (g', s')"
  shows "n \<le> live_rank s \<and> received s @ rx (with_rx g s) = task_items res
    \<and> (if wants sz g' then \<exists>t. read_step sz (g', s') t else with_rx g' s' = pull sz (with_rx g s))"
proof -
  have "attached g s" by (rule reach_attached [OF assms(1-3)])
  with read_run [OF assms(4)] read_progress [of sz g' s'] pull_stop_wants [of sz "with_rx g' s'"]
    reach_attached(2) [OF assms(1-3)]
  show ?thesis by auto
qed

theorem concurrent_read_witness:
  "\<exists>s. (read_step 1 ^^ 1) (inner_new [], prod_init (Ok [Ok ''a''])) (inner_new [], s)
     \<and> (\<exists>t. read_step 1 (inner_new [], s) t)"
proof -
  let ?s = "(prod_init (Ok [Ok ''a'']))\<lparr>pc := Waiting, upstream := [Ok ''a''], woken := False\<rparr>"
  have "task_step (prod_init (Ok [Ok ''a''])) ?s"
    by (rule task_step.connected) (simp_all add: prod_init_def)
  then have run: "(read_step 1 ^^ 1) (inner_new [], prod_init (Ok [Ok ''a''])) (inner_new [], ?s)"
    by (simp only: relpowp_1) (rule read_step.work)
  have w: "wants 1 (inner_new [])" by (simp add: wants_def inner_new_def)
  have "\<not> cancel_called (prod_init (Ok [Ok ''a'']))"
    "eof_seen (prod_init (Ok [Ok ''a''])) \<longrightarrow> upstream_done (inner_new [])"
    by (simp_all add: prod_init_def)
  from concurrent_read [OF prod_reach.start this run] w run show ?thesis by auto
qed

text \<open>C25: Once the handle is dropped the task takes at most three more steps, delivers nothing, and it
  can always take them until it has finished.\<close>

theorem dropped_task_ends:
  assumes "(task_step ^^ n) (prod_close s) s'"
  shows "n \<le> 3 \<and> received s' = received s \<and> ((\<nexists>t. task_step s' t) \<longleftrightarrow> pc s' = Finished)"
  using assms by (rule closed_run_short)

theorem dropped_task_ends_witness:
  "received (prod_close (prod_init (Ok []))) = []
   \<and> (\<exists>t. task_step (prod_close (prod_init (Ok []))) t)"
proof -
  have "(task_step ^^ 0) (prod_close (prod_init (Ok []))) (prod_close (prod_init (Ok [])))" by simp
  from dropped_task_ends [OF this] show ?thesis
    by (simp add: prod_init_def prod_close_def prod_cancel_def)
qed

text \<open>C26: Whatever reads a handle serves, its tail query is sent at most once, and only when the handle
  was opened with a tail context.\<close>

theorem tail_query_once:
  "snd (run_reads e h rs w) = w \<or>
   (\<exists>tc. sh_tail h = Some tc \<and>
      snd (run_reads e h rs w) = snd (env_send e (text_request (sh_driver h) (tail_sql tc)) w))"
  by (rule run_reads_world)

text \<open>C27: The tail buffer is a window that ends at the size which \<open>getattr\<close> reports for the file: inside
  it a read gets the slice at its position, at or past the end nothing, and below it the buffer does
  not answer.\<close>

theorem tail_window:
  assumes "tail_buf g = Some buf" and "length buf < 2 ^ 63 - 1" and "is_stream_file p"
    and "fa_size (attr_for_plan fs i p) = file_end"
  shows "tail_read g offset sz =
     (if unat file_end \<le> unat offset then Some []
      else if unat file_end \<le> unat offset + length buf
           then Some (take sz (drop (unat offset + length buf - unat file_end) buf))
      else None)"
proof -
  have "file_end = PSEUDO_EOF"
    using assms(3,4) by (auto simp: attr_for_plan_def file_attr_of_def PSEUDO_EOF_def split: plan_kind.splits)
  then show ?thesis using tail_read_cases [OF assms(1,2)] by (simp add: unat_PSEUDO_EOF)
qed

theorem tail_window_witness:
  "tail_read ((inner_new [])\<lparr>tail_buf := Some ''abc''\<rparr>) 9223372036854775805 10 = Some ''bc''"
proof -
  let ?p = "mk_plan StreamAll (Some ''d'') (Some ''t'')"
  have buf: "tail_buf ((inner_new [])\<lparr>tail_buf := Some ''abc''\<rparr>) = Some ''abc''" by simp
  have p: "is_stream_file ?p" by (simp add: mk_plan_def)
  have "fa_size (attr_for_plan demo_new 100 ?p) = 9223372036854775807"
    by (simp add: attr_for_plan_def file_attr_of_def mk_plan_def u64_max_def)
  from tail_window [OF buf _ p this, of 9223372036854775805 10] show ?thesis by simp
qed

text \<open>C28: Reversing a newline-terminated table keeps the header line first and reverses the data lines;
  reversing twice gives the table back, and the length never changes.\<close>

theorem reverse_rows:
  assumes "list_all nl_free (h # rows)"
  shows "reverse_tsv_rows (tsv_body h rows) = tsv_body h (rev rows)
    \<and> reverse_tsv_rows (reverse_tsv_rows (tsv_body h rows)) = tsv_body h rows
    \<and> length (reverse_tsv_rows body) = length body"
proof -
  have "tsv_body h rows \<noteq> []" and "last (tsv_body h rows) = NL" by (simp_all add: tsv_body_def)
  with reverse_tsv_body [OF assms] reverse_involution reverse_tsv_length show ?thesis by blast
qed

theorem reverse_rows_witness:
  "reverse_tsv_rows (''h'' @ [NL] @ ''x'' @ [NL] @ ''y'' @ [NL]) = ''h'' @ [NL] @ ''y'' @ [NL] @ ''x'' @ [NL]"
  using reverse_rows [of "''h''" "[''x'', ''y'']"] by (simp add: nl_free_def tsv_body_def)

section \<open>Properties of the caches\<close>

text \<open>C29: After any sequence of calls a lookup finds exactly the value of the latest insert of its key,
  when that insert is no older than the time to live.\<close>

theorem cache_history:
  assumes "\<forall>x \<in> set xs. op_time x \<le> now"
  shows "fst (cache_get (cache_run (cache_new t_l) xs) k now) = spec_get t_l xs k now"
  using assms by (rule cache_run_spec)

theorem cache_history_witness:
  "fst (cache_get (cache_run (cache_new 5) [OpInsert ''k'' ''v'' 1, OpGet ''k'' 9, OpInsert ''k'' ''w'' 10])
     ''k'' 12) = Some ''w''"
  using cache_history [of "[OpInsert ''k'' ''v'' 1, OpGet ''k'' 9, OpInsert ''k'' ''w'' 10]" 12 5 "''k''"]
  by (simp add: spec_get_def)

text \<open>C30: With lookups, inserts and the delayed removal of expired entries interleaved over any number of
  threads, every value served was inserted for that key and is no older than the time to live.\<close>

theorem cache_concurrent:
  assumes "cache_reach t_l s"
  shows "\<forall>(k, v, t0, t) \<in> set (served s). (k, v, t0) \<in> set (written s) \<and> t0 \<le> t \<and> t - t0 \<le> t_l"
  using cache_reach_inv [OF assms] by (auto simp: cache_sys_inv_def)

theorem cache_concurrent_witness:
  "\<exists>s. cache_reach 5 s \<and> served s = [(''k'', ''v'', 0, 0)] \<and> (''k'', ''v'', 0) \<in> set (written s)"
  using cache_concurrent [OF demo_cache_reach] demo_cache_reach
  by (intro exI [of _ "demo_cache [(''k'', ''v'', 0, 0)]"]) (simp add: demo_cache_def)

text \<open>C31: After the databases or the tables of a database were listed, all the lookups, listings and
  attribute requests that follow in this directory (those of \<open>ls -l\<close>) send no request to the server, as
  long as the listing is not older than two seconds: the world only sees its clock read.\<close>

theorem listing_storm:
  assumes "fs_inv d fs" and "path_of fs i = Ok path" and "clean_path path" and "resolve path = Ok p"
    and "listing_dir p" and "fs_readdir x full i off fs w = Some (Ok out, fs1, w1)"
  shows "\<exists>t0. ((\<exists>t. env_now (x_env x) w = (t, w1) \<and> t - t0 \<le> cache_ttl) \<or> (\<exists>w2. env_now (x_env x) w2 = (t0, w1)))
    \<and> (\<forall>reqs replies fs2 w2. list_all (storm_request i) reqs \<and> fresh_for (x_env x) (length reqs) t0 w1
          \<and> fs_run x full reqs fs1 w1 = Some (replies, fs2, w2) \<longrightarrow>
        (\<exists>k \<le> length reqs. w2 = ticks (x_env x) k w1))"
proof -
  have ok: "caches_ok fs" and wf: "inode_wf (inodes fs)" using assms(1) by (simp_all add: fs_inv_def table_ok_def)
  obtain t0 where t0: "listed_since p fs1 t0"
    "(\<exists>t. env_now (x_env x) w = (t, w1) \<and> t - t0 \<le> cache_ttl) \<or> (\<exists>w2. env_now (x_env x) w2 = (t0, w1))"
    using readdir_lists [OF assms(2,4,5) ok assms(6)] by blast
  have grow: "inodes_grow (inodes fs) (inodes fs1)" using readdir_grow [OF wf assms(6)] .
  then have fs1: "path_of fs1 i = Ok path" "inode_wf (inodes fs1)"
    using assms(2) wf by (auto simp: path_of_def inodes_grow_def split: option.splits)
  have "fs_handle x full (ReqReaddir i off) fs w = Some (RepDir (Ok out), fs1, w1)" using assms(6) by simp
  from any.handle_I [OF _ assms(1) refl this] have "caches_ok fs1" by (simp add: fs_inv_def)
  note storm = storm_run [OF fs1(1) assms(3-5) t0(1) this fs1(2)]
  show ?thesis
    by (rule exI [of _ t0], intro conjI allI impI t0(2)) (elim conjE, rule storm)
qed

theorem listing_storm_witness:
  "\<exists>fs1. fs_readdir demo_ext (\<lambda>_ _. False) 202 3 (demo_new\<lparr>inodes := demo_table\<rparr>) 0 = Some (Ok [], fs1, 1)
     \<and> (\<forall>rs fs2 w2. fs_run demo_ext (\<lambda>_ _. False) [ReqLookup 202 ''t'', ReqReaddir 202 0, ReqGetattr 202] fs1 1
           = Some (rs, fs2, w2) \<longrightarrow> w2 = 1)"
proof -
  let ?fs = "demo_new\<lparr>inodes := demo_table\<rparr>"
  have path: "path_of ?fs 202 = Ok ''/db''"
    by (simp add: path_of_def demo_table_def inode_lookup_def)
  have clean: "clean_path ''/db''" by code_simp
  have lines: "nonempty_lines (''t'' @ [NL]) = [''t'']" by code_simp
  have "db_cache ?fs = cache_new cache_ttl" by (simp add: demo_new_def clickfs_new_def)
  then obtain fs2 where "fetch_databases demo_env ?fs 0 = (Ok [''t''], fs2, 1)"
    using lines
    by (simp add: fetch_databases_def fetch_cached_def cache_get_def cache_new_def query_text_def demo_env_def Let_def)
  then have "dir_entries demo_env (mk_plan DbNamespace None None) ?fs 0 =
      (Ok (dots @ [(Directory, ''t'')]), fs2, 1)"
    by (simp add: dir_entries_def mk_plan_def list_dirs_def)
  moreover have "x_env demo_ext = demo_env" by (simp add: demo_ext_def)
  ultimately have "fs_readdir demo_ext (\<lambda>_ _. False) 202 3 ?fs 0 = Some (Ok [], fs2\<lparr>inodes := inodes fs2\<rparr>, 1)"
    by (simp add: fs_readdir_def path demo_db dots_def)
  then obtain fs1 where r: "fs_readdir demo_ext (\<lambda>_ _. False) 202 3 ?fs 0 = Some (Ok [], fs1, 1)"
    by blast
  have inv: "fs_inv demo_driver ?fs"
    using clickfs_new_inv [of demo_driver] inode_allocate_table_ok [OF table_ok_new demo_alloc_db]
    by (simp add: fs_inv_def demo_new_def caches_ok_def)
  have dir: "listing_dir (mk_plan DbNamespace None None)" by (simp add: listing_dir_def mk_plan_def)
  have now: "env_now (x_env demo_ext) w = (w, w)" for w by (simp add: demo_ext_def demo_env_def)
  have tick: "ticks (x_env demo_ext) k w = w" for k w by (induction k) (simp_all add: now)
  from listing_storm [OF inv path clean demo_db(3) dir r] obtain t0 where t0: "t0 = 1"
    and storm: "\<And>reqs replies fs2 w2. list_all (storm_request 202) reqs \<Longrightarrow>
        fresh_for (x_env demo_ext) (length reqs) t0 1 \<Longrightarrow>
        fs_run demo_ext (\<lambda>_ _. False) reqs fs1 1 = Some (replies, fs2, w2) \<Longrightarrow> w2 = 1"
    by (auto simp: now tick)
  have "plain_name ''t''" by code_simp
  then have "list_all (storm_request 202) [ReqLookup 202 ''t'', ReqReaddir 202 0, ReqGetattr 202]" by simp
  moreover have "fresh_for (x_env demo_ext) (length [ReqLookup 202 ''t'', ReqReaddir 202 0, ReqGetattr 202]) t0 1"
    by (simp add: fresh_for_def now tick t0)
  ultimately show ?thesis using r storm by blast
qed

section \<open>Properties of errors\<close>

text \<open>C32: The errno of a failed request is decided by the number in the response's exception header, whatever
  the body says; without a number there by the code of the exception in the body; and only for a
  response without either by its HTTP status.  It is the errno with which opening a \<open>.schema\<close> fails.\<close>

theorem failure_errno:
  assumes "env_send e (text_request d sql) w = (Ok resp, w1)" and "\<not> rs_success resp" and "rs_text resp = Ok body"
  shows "\<exists>qe. query_text e d sql w = (Err qe, w1)
    \<and> (\<forall>h code. rs_header resp ''X-ClickHouse-Exception-Code'' = Some h \<and> parse_i32 (str_trim h) = Some code \<longrightarrow>
          query_errno qe = clickhouse_code_to_errno code)
    \<and> ((\<forall>h. rs_header resp ''X-ClickHouse-Exception-Code'' = Some h \<longrightarrow> parse_i32 (str_trim h) = None) \<longrightarrow>
          (\<forall>n msg. n < 2 ^ 31 \<and> body = exception_text n msg \<longrightarrow> query_errno qe = clickhouse_code_to_errno (int n))
        \<and> (\<not> sublist ''Code:'' body \<longrightarrow> query_errno qe =
             (if rs_status resp \<in> {401, 403} then EACCES else if rs_status resp = 404 then ENOENT else EIO)))
    \<and> (\<forall>x i flags fs path p. x_env x = e \<and> f_driver fs = d \<and> and flags O_ACCMODE = O_RDONLY
          \<and> path_of fs i = Ok path \<and> resolve path = Ok p \<and> p_kind p = DescribeTable
          \<and> sql = sql_describe (the (p_db p)) (the (p_table p)) \<longrightarrow>
          fst (fs_open x i flags fs w) = Err (query_errno qe))"
proof -
  let ?header = "rs_header resp ''X-ClickHouse-Exception-Code''"
  let ?qe = "classify_error (rs_status resp) ?header body"
  note errno = classify_errno [of "rs_status resp" ?header body]
  have failed: "query_text e d sql w = (Err ?qe, w1)"
    using failed_text_query [OF assms] by (simp add: exception_header_def)
  have header: "query_errno ?qe = clickhouse_code_to_errno code"
    if "?header = Some h \<and> parse_i32 (str_trim h) = Some code" for h code
    using errno parse_clickhouse_error_header that by simp
  have body: "query_errno ?qe = clickhouse_code_to_errno (int n)"
    if "\<forall>h. ?header = Some h \<longrightarrow> parse_i32 (str_trim h) = None" "n < 2 ^ 31 \<and> body = exception_text n msg" for n msg
    using errno parse_clickhouse_error_body [of n ?header msg] that by simp
  have status: "query_errno ?qe =
      (if rs_status resp \<in> {401, 403} then EACCES else if rs_status resp = 404 then ENOENT else EIO)"
    if "\<forall>h. ?header = Some h \<longrightarrow> parse_i32 (str_trim h) = None" "\<not> sublist ''Code:'' body"
    using errno parse_clickhouse_error_none [of ?header body] that by simp
  show ?thesis
  proof (intro exI conjI)
    show "query_text e d sql w = (Err ?qe, w1)" by (rule failed)
  next
    show "\<forall>h code. ?header = Some h \<and> parse_i32 (str_trim h) = Some code \<longrightarrow>
        query_errno ?qe = clickhouse_code_to_errno code"
      by (intro allI impI) (rule header)
  next
    show "(\<forall>h. ?header = Some h \<longrightarrow> parse_i32 (str_trim h) = None) \<longrightarrow>
        (\<forall>n msg. n < 2 ^ 31 \<and> body = exception_text n msg \<longrightarrow> query_errno ?qe = clickhouse_code_to_errno (int n))
      \<and> (\<not> sublist ''Code:'' body \<longrightarrow> query_errno ?qe =
           (if rs_status resp \<in> {401, 403} then EACCES else if rs_status resp = 404 then ENOENT else EIO))"
      by (intro allI impI conjI) (rule body, assumption+, rule status, assumption+)
  qed (intro allI impI, elim conjE, rule failed_schema_open [where ?w1.0 = w1], use failed in simp_all)
qed

theorem failure_errno_witness:
  "(\<exists>qe. query_text (demo_failing (Some (show_int 192))) demo_driver ''SELECT 1'' 0 = (Err qe, 1) \<and> query_errno qe = EACCES)
   \<and> (\<exists>qe. query_text (demo_failing None) demo_driver ''SELECT 1'' 0 = (Err qe, 1) \<and> query_errno qe = ENOENT)"
proof
  have code: "parse_i32 (str_trim (show_int 192)) = Some 192" by (simp add: show_int_trim parse_i32_show_int)
  from failure_errno [OF demo_failing_send demo_failure_simps(1,2), of "Some (show_int 192)" demo_driver "''SELECT 1''"]
  obtain qe where "query_text (demo_failing (Some (show_int 192))) demo_driver ''SELECT 1'' 0 = (Err qe, 1)"
    and "\<forall>h code. rs_header (demo_failure (Some (show_int 192))) ''X-ClickHouse-Exception-Code'' = Some h
      \<and> parse_i32 (str_trim h) = Some code \<longrightarrow> query_errno qe = clickhouse_code_to_errno code"
    by (elim exE conjE) (rule that; assumption)
  with code show "\<exists>qe. query_text (demo_failing (Some (show_int 192))) demo_driver ''SELECT 1'' 0 = (Err qe, 1)
      \<and> query_errno qe = EACCES"
    by (auto simp: clickhouse_code_to_errno_def)
  from failure_errno [OF demo_failing_send demo_failure_simps(1,2), of None demo_driver "''SELECT 1''"]
  obtain qe where "query_text (demo_failing None) demo_driver ''SELECT 1'' 0 = (Err qe, 1)"
    and "(\<forall>h. rs_header (demo_failure None) ''X-ClickHouse-Exception-Code'' = Some h \<longrightarrow>
          parse_i32 (str_trim h) = None) \<longrightarrow>
      (\<forall>n msg. n < 2 ^ 31 \<and> exception_text 60 ''no'' = exception_text n msg \<longrightarrow>
          query_errno qe = clickhouse_code_to_errno (int n))
      \<and> (\<not> sublist ''Code:'' (exception_text 60 ''no'') \<longrightarrow> query_errno qe =
          (if rs_status (demo_failure None) \<in> {401, 403} then EACCES
           else if rs_status (demo_failure None) = 404 then ENOENT else EIO))"
    by (elim exE conjE) (rule that; assumption)
  moreover from this(2) [THEN mp, THEN conjunct1, THEN spec, THEN spec, of 60 "''no''"]
  have "query_errno qe = clickhouse_code_to_errno (int 60)" by simp
  ultimately show "\<exists>qe. query_text (demo_failing None) demo_driver ''SELECT 1'' 0 = (Err qe, 1)
      \<and> query_errno qe = ENOENT"
    by (auto simp: clickhouse_code_to_errno_def)
qed

text \<open>C33: The text form in which the server sends an exception, with or without its final dot and version
  suffix, is parsed back to its code and its message, for every code from 0 to \<open>2 ^ 31 - 1\<close> and every
  message with printable ends, no dot at its end and no version mark in it; a negative code in the
  body is not read.  A number in the header, of any sign, replaces the code, and then the whole body,
  cleaned in the same way (not verbatim, as the comment has it), is the message.\<close>

theorem exception_roundtrip:
  assumes n: "n < 2 ^ 31" and msg: "msg \<noteq> []" "printable (hd msg)" "printable (last msg)" "last msg \<noteq> CHR ''.''"
    and "\<not> sublist '' (version'' msg" and "\<not> sublist ''(version'' v"
  shows "((\<forall>h. header_code = Some h \<longrightarrow> parse_i32 (str_trim h) = None) \<longrightarrow>
        parse_clickhouse_error header_code (exception_text n msg) = Some (int n, msg)
      \<and> parse_clickhouse_error header_code (exception_text n (msg @ ''.'')) = Some (int n, msg)
      \<and> parse_clickhouse_error header_code (exception_text n (msg @ ''. (version '' @ v @ '')'')) = Some (int n, msg)
      \<and> parse_clickhouse_error header_code (''Code: -'' @ body) = None)
    \<and> (\<forall>c. - (2 ^ 31) \<le> c \<and> c < 2 ^ 31 \<longrightarrow>
        parse_clickhouse_error (Some (show_int c)) body = Some (c, clean_message body))"
proof (intro conjI impI allI)
  assume "\<forall>h. header_code = Some h \<longrightarrow> parse_i32 (str_trim h) = None"
  then have hdr: "\<And>h. header_code = Some h \<Longrightarrow> parse_i32 (str_trim h) = None" by simp
  note body = parse_clickhouse_error_body [OF n hdr]
  show "parse_clickhouse_error header_code (exception_text n msg) = Some (int n, msg)"
    "parse_clickhouse_error header_code (exception_text n (msg @ ''.'')) = Some (int n, msg)"
    "parse_clickhouse_error header_code (exception_text n (msg @ ''. (version '' @ v @ '')'')) = Some (int n, msg)"
    using clean_message_plain [OF msg assms(6)] clean_message_dot [OF msg assms(6)]
      clean_message_version [OF msg assms(7)] by (simp_all add: body)
  show "parse_clickhouse_error header_code (''Code: -'' @ body) = None"
    using hdr by (rule parse_clickhouse_error_negative)
next
  fix c :: int
  assume "- (2 ^ 31) \<le> c \<and> c < 2 ^ 31"
  then show "parse_clickhouse_error (Some (show_int c)) body = Some (c, clean_message body)"
    using parse_i32_show_int [of c] by (intro parse_clickhouse_error_header) (simp add: show_int_trim)
qed

theorem exception_roundtrip_witness:
  "parse_clickhouse_error None (exception_text 60 ''Table d.t does not exist. (version 24.8.4 (official build))'') =
     Some (60, ''Table d.t does not exist'')"
proof -
  have "\<not> sublist '' (version'' ''Table d.t does not exist''" "\<not> sublist ''(version'' ''24.8.4 (official build)''"
    by code_simp+
  then show ?thesis
    using exception_roundtrip [of 60 "''Table d.t does not exist''" "''24.8.4 (official build)''" None "[]"]
    by (simp add: printable_def byte_of_def)
qed

section \<open>Properties of single handlers\<close>

text \<open>C34: What the file system refuses leaves no trace.  In every session an open with a write access mode and
  the eight stubbed operations (\<open>setattr\<close>, \<open>mknod\<close>, \<open>mkdir\<close>, \<open>unlink\<close>, \<open>rmdir\<close>, \<open>rename\<close>, \<open>create\<close>, \<open>write\<close>) are
  answered with EROFS, and the session without them has the same replies to the other requests, the
  same final state and the same outside world (so nothing was sent for them).\<close>

theorem refusals_leave_no_trace:
  "fs_run x full reqs fs w =
     map_option (apfst (with_refusals reqs)) (fs_run x full (filter (\<lambda>q. \<not> refused q) reqs) fs w)"
  by (rule run_refused)

section \<open>Properties of start-up, of the README and of termination\<close>

text \<open>C35: When \<open>mount\<close> exits with success the server had answered the ping, the session was mounted
  read-only at the given mountpoint, and the file system it served satisfied its invariant, with
  at least one tail row.\<close>

theorem mount_success:
  assumes "run_mount hst e a w = (0, w')"
  shows "\<exists>d fs w1 w2 opts. fst (ping e d w) = Ok () \<and> fs_inv d fs \<and> RO \<in> set opts
    \<and> 1 \<le> tail_rows (f_tail_cfg fs)
    \<and> h_mount hst fs (a_mountpoint a) opts w1 = (Ok (), w2) \<and> w' = w2"
  using assms by (rule run_mount_success)

theorem mount_success_witness:
  "run_mount demo_host demo_env demo_args 0 = (0, 11)
   \<and> (\<exists>fs :: unit clickfs. 1 \<le> tail_rows (f_tail_cfg fs))"
proof -
  have run: "run_mount demo_host demo_env demo_args 0 = (0, 11)"
    by (simp add: run_mount_def demo_host_def demo_args_def mount_defaults_def read_bundle_def driver_new_def tls_of_def
        tls_validate_def ping_def query_text_def demo_env_def)
  from mount_success [OF run] run show ?thesis by blast
qed

text \<open>C36: A \<open>mount\<close> command whose options have values of their types exits with 0, 1 or 2: with 2 exactly for
  \<open>--insecure\<close> together with \<open>--ca-bundle\<close> (which \<open>clap\<close> refuses), a bad URL, a missing mountpoint or an
  unreadable CA bundle, and then before anything is sent.\<close>

theorem exit_codes:
  "fst (cli_run hst e (Mount a) w) \<in> {0, 1, 2}
   \<and> (fst (cli_run hst e (Mount a) w) = 2 \<longleftrightarrow> conflicting_options a \<or> bad_arguments hst a)
   \<and> (conflicting_options a \<or> bad_arguments hst a \<longrightarrow> cli_run hst e (Mount a) w = (2, w))"
  using run_mount_codes [of hst e a w] run_mount_no_request [of hst a e w]
  by (auto simp: cli_run_def cli_parse_def conflicting_options_def bad_arguments_def)

theorem exit_codes_witness:
  "cli_run (demo_host\<lparr>h_is_dir := (\<lambda>_. False)\<rparr>) demo_env (Mount demo_args) 0 = (2, 0)
   \<and> cli_run demo_host demo_env (Mount (demo_args\<lparr>a_insecure := True, a_ca_bundle := Some ''/c.pem''\<rparr>)) 0 = (2, 0)"
  using exit_codes [of "demo_host\<lparr>h_is_dir := (\<lambda>_. False)\<rparr>" demo_env demo_args 0]
    exit_codes [of demo_host demo_env "demo_args\<lparr>a_insecure := True, a_ca_bundle := Some ''/c.pem''\<rparr>" 0]
  by (simp add: bad_arguments_def conflicting_options_def)

text \<open>C37: Opening a README succeeds whatever the server answers or refuses: it sends the same five requests
  in the same order, and the document it stores under the new handle has all six sections.\<close>

theorem readme_best_effort:
  assumes "and flags O_ACCMODE = O_RDONLY" and "path_of fs i = Ok path"
    and "resolve path = Ok p" and "p_kind p = Readme"
  shows "\<exists>doc fs' w'. fs_open \<lparr>x_env = env_logged e, x_json = j, x_hash = h\<rparr> i flags fs (w, l) =
      (Ok (fh_counter fs), fs', w', l @ map (text_request (f_driver fs))
         (readme_statements (the (p_db p)) (the (p_table p))))
    \<and> fmlookup (handles fs') (fh_counter fs) = Some (HSpecial doc)
    \<and> list_all (\<lambda>h. sublist h doc) readme_headings"
  using assms by (rule open_readme)

theorem readme_best_effort_witness:
  "\<exists>fs' w' l'. fs_open \<lparr>x_env = env_logged demo_env, x_json = demo_json, x_hash = (\<lambda>_. 0)\<rparr> 100 0
      (demo_fs ''/db/d/t/README.md'') (0, []) = (Ok 1, fs', w', l') \<and> length l' = 5"
proof -
  let ?fs = "demo_fs ''/db/d/t/README.md''"
  have path: "path_of ?fs 100 = Ok ''/db/d/t/README.md''"
    by (simp add: path_of_def inode_lookup_def demo_fs_def)
  have res: "resolve ''/db/d/t/README.md'' = Ok (mk_plan Readme (Some ''d'') (Some ''t''))"
    by code_simp
  have fh: "fh_counter ?fs = 1" by (simp add: demo_fs_def demo_new_def clickfs_new_def)
  have flags: "and 0 O_ACCMODE = O_RDONLY" by (simp add: O_RDONLY_def)
  from readme_best_effort [OF flags path res, of demo_env demo_json "\<lambda>_. 0" 0 "[]"] fh
  show ?thesis by (auto simp: readme_statements_def)
qed

text \<open>C38: Below \<open>2 ^ 53\<close> the size that the README shows is that of exact arithmetic: the unit is the largest
  one that is not larger than the number, and the two decimals are the nearest to the quotient.\<close>

theorem human_bytes_exact:
  assumes "unat n < 2 ^ 53"
  shows "human_bytes n = human_bytes_spec (unat n)
    \<and> (unit_of (unat n) = 0 \<or> 1024 ^ unit_of (unat n) \<le> unat n)
    \<and> (unit_of (unat n) = 5 \<or> unat n < 1024 ^ (unit_of (unat n) + 1))
    \<and> 2 * \<bar>round_div (100 * int (unat n)) (1024 ^ unit_of (unat n)) * 1024 ^ unit_of (unat n)
           - 100 * int (unat n)\<bar> \<le> 1024 ^ unit_of (unat n)"
  using human_bytes_exact_text [OF assms] unit_of_bounds [of "unat n"] round_div_error by simp

theorem human_bytes_exact_witness: "human_bytes 1536 = human_bytes_spec 1536 \<and> unit_of 1536 \<noteq> 0"
proof -
  have "unat (1536 :: u64) = 1536" by simp
  with human_bytes_exact [of 1536] show ?thesis by (cases "unit_of 1536 = 0") auto
qed

text \<open>C39: Split at the vertical bars that no backslash precedes, a row of the README's column table has exactly the three cells
  with the column's name, type and comment, whatever bars they hold; the row is one line exactly when
  neither the name nor the type has a line feed, because only those of the comment are replaced.\<close>

theorem column_row_wellformed:
  "md_cells (column_row name ty comment) =
      [[], '' '' @ [BTK] @ name @ [BTK] @ '' '', '' '' @ [BTK] @ ty @ [BTK] @ '' '',
       '' '' @ one_line comment @ '' '', []]
   \<and> (NL \<notin> set (column_row name ty comment) \<longleftrightarrow> NL \<notin> set name \<and> NL \<notin> set ty)"
  using column_row_lines column_row_cells by blast

text \<open>C40: Every request is answered: no handler probes for ever, as long as the inode table and the
  entries of the directory together are fewer than the inode numbers.\<close>

theorem requests_answered:
  assumes "inode_wf (inodes fs)"
    and "\<And>i. inode_count (inodes fs) + listing_length (x_env x) i fs w < 2 ^ 64"
  shows "fs_handle x full req fs w \<noteq> None"
  using assms by (rule handle_returns)

theorem requests_answered_witness:
  "fs_handle demo_ext (\<lambda>_ _. False) (ReqLookup 1 ''db'') demo_new 0 \<noteq> None"
proof (rule requests_answered)
  show "inode_wf (inodes demo_new)" by (simp add: demo_new_def clickfs_new_def inode_new_wf)
  show "inode_count (inodes demo_new) + listing_length (x_env demo_ext) i demo_new 0 < 2 ^ 64" for i
    using demo_listing [of i] by (simp add: demo_count demo_ext_def)
qed

end
